theory Spec2Isabelle
  imports Main
begin

section \<open>Data model of \<^verbatim>\<open>Data_extract.py\<close>\<close>

text \<open>
  Paths and file names are Python strings over ASCII and are modelled as \<open>string\<close>.
  The text that the text-mode readers and writers exchange is modelled as the list of its
  Unicode code points, so that \<open>sorted\<close> on a set of one-character strings is the
  ordering of \<open>nat\<close>. A file system is a finite map from paths to the text of the
  regular files. Text written in UTF-8 text mode and read back in UTF-8 text mode is taken
  to be the same text (POSIX line endings).
\<close>

type_synonym pathname = string
type_synonym unicode = "nat list"
type_synonym fs = "pathname \<rightharpoonup> unicode"

datatype error = OSError | DecodeError | ValueError | NotADirectoryError

text \<open>
  What \<^verbatim>\<open>lzma.open(file_path, "rt", encoding="utf-8")\<close> delivers for one shard:
  either opening raises, or the reader delivers the code points of \<open>good\<close> and then
  either reaches the end of the stream or, when \<open>broken\<close>, raises a decoding error.
\<close>

datatype shard = Unopenable | Stream (good: unicode) (broken: bool)

text \<open>
  \<^verbatim>\<open>infile.read(n)\<close> on the remaining stream: \<open>n\<close> code points when that many
  are left; the shorter rest (possibly empty) at the end of an intact stream; an exception
  when the stream breaks before \<open>n\<close> code points could be delivered.
\<close>

definition read :: "nat \<Rightarrow> unicode \<times> bool \<Rightarrow> error + (unicode \<times> (unicode \<times> bool))" where
  "read n s =
     (case s of (t, brk) \<Rightarrow>
        if n \<le> length t then Inr (take n t, (drop n t, brk))
        else if brk then Inl DecodeError
        else Inr (t, ([], False)))"

subsection \<open>Names of scratch files\<close>

text \<open>\<^verbatim>\<open>str\<close> of a non-negative integer: its decimal digits, no leading zero.\<close>

definition digit :: "nat \<Rightarrow> char" where
  "digit d = ''0123456789'' ! d"

function str :: "nat \<Rightarrow> string" where
  "str n = (if n < 10 then [digit n] else str (n div 10) @ [digit (n mod 10)])"
  by pat_completeness auto
termination
  by (relation "measure id") auto

declare str.simps [simp del]

text \<open>\<^verbatim>\<open>os.path.join(a, b)\<close> of \<^verbatim>\<open>posixpath\<close>, for two components.\<close>

definition join :: "pathname \<Rightarrow> pathname \<Rightarrow> pathname" where
  "join a b =
     (if b \<noteq> [] \<and> hd b = CHR ''/'' then b
      else if a = [] \<or> last a = CHR ''/'' then a @ b
      else a @ ''/'' @ b)"

text \<open>
  The path \<^verbatim>\<open>temp_output\<close> of \<^verbatim>\<open>process_file\<close>. The process id and the draw of
  \<^verbatim>\<open>random.randint(1000, 9999)\<close> are inputs of the model.
\<close>

definition unique_id :: "nat \<Rightarrow> nat \<Rightarrow> string" where
  "unique_id pid rnd = str pid @ ''_'' @ str rnd"

definition temp_output :: "pathname \<Rightarrow> nat \<Rightarrow> nat \<Rightarrow> string \<Rightarrow> pathname" where
  "temp_output temp_dir pid rnd filename =
     join temp_dir (unique_id pid rnd @ ''_'' @ filename @ ''.txt'')"

subsection \<open>The shard reader \<^verbatim>\<open>process_file\<close>\<close>

text \<open>
  What the file system lets a worker do with its scratch file: either
  \<^verbatim>\<open>open(temp_output, "w", encoding="utf-8")\<close> raises (the name is too long, the
  directory is not writable), or the file is created empty and has room for a number of
  code points, after which writing to it raises (the disk is full).
\<close>

datatype scratch_file = CannotOpen | Room nat

text \<open>
  \<^verbatim>\<open>outfile.write(chunk)\<close> on a scratch file with the given room that holds \<open>out\<close>:
  the text that the file holds afterwards, or an exception when the chunk does not fit.
  Of a chunk that does not fit the file keeps what it had room for.
\<close>

definition outfile_write :: "nat \<Rightarrow> unicode \<Rightarrow> unicode \<Rightarrow> error + unicode" where
  "outfile_write room out chunk =
     (if length out + length chunk \<le> room then Inr (out @ chunk) else Inl OSError)"

text \<open>
  The \<^verbatim>\<open>while chunk:\<close> loop. The state is the chunk just read, the rest of the stream,
  the text written to the scratch file so far and the character set. The result is the
  text in the scratch file, the character set, and \<open>None\<close> when the loop ran to the end
  of the stream or the exception that left it.
\<close>

function chunk_loop ::
  "nat \<Rightarrow> nat \<Rightarrow> unicode \<Rightarrow> unicode \<times> bool \<Rightarrow> unicode \<Rightarrow> nat set
     \<Rightarrow> unicode \<times> nat set \<times> error option" where
  "chunk_loop n room chunk s out chars =
     (if chunk = [] then (out, chars, None)
      else
        (case outfile_write room out chunk of
           Inl e \<Rightarrow> (take room (out @ chunk), chars, Some e)
         | Inr out' \<Rightarrow>
             (case read n s of
                Inl e \<Rightarrow> (out', chars \<union> set chunk, Some e)
              | Inr (chunk', s') \<Rightarrow> chunk_loop n room chunk' s' out' (chars \<union> set chunk))))"
  by pat_completeness auto
termination
  by (relation "measure (\<lambda>(n, room, chunk, s, out, chars).
         length (fst s) + (if chunk = [] then 0 else 1))")
     (auto simp: read_def split: if_splits prod.splits)

declare chunk_loop.simps [simp del]

text \<open>
  The body of the \<^verbatim>\<open>try\<close> block with chunk size \<open>n\<close>: the value it returns or the
  exception it raises, and the file system it leaves. The shard is opened first; when that
  raises, the scratch file is not touched. Opening the scratch file for writing creates it
  empty; what was written before an exception stays in the file, which the \<^verbatim>\<open>with\<close>
  statement closes.
\<close>

definition try_body ::
  "nat \<Rightarrow> (pathname \<Rightarrow> shard) \<Rightarrow> scratch_file \<Rightarrow> nat \<Rightarrow> nat \<Rightarrow> pathname \<times> string \<times> pathname
     \<Rightarrow> fs \<Rightarrow> (error + (pathname \<times> nat set)) \<times> fs" where
  "try_body n shards outfile pid rnd args fs =
     (case args of (directory, filename, temp_dir) \<Rightarrow>
        let file_path = join directory filename;
            temp_out = temp_output temp_dir pid rnd filename
        in (case shards file_path of
              Unopenable \<Rightarrow> (Inl OSError, fs)
            | Stream t brk \<Rightarrow>
                (case outfile of
                   CannotOpen \<Rightarrow> (Inl OSError, fs)
                 | Room room \<Rightarrow>
                     (case read n (t, brk) of
                        Inl e \<Rightarrow> (Inl e, fs(temp_out \<mapsto> []))
                      | Inr (chunk, s) \<Rightarrow>
                          (case chunk_loop n room chunk s [] {} of
                             (out, chars, Some e) \<Rightarrow> (Inl e, fs(temp_out \<mapsto> out))
                           | (out, chars, None) \<Rightarrow>
                               (Inr (temp_out, chars), fs(temp_out \<mapsto> out)))))))"

text \<open>
  \<^verbatim>\<open>process_file\<close> with its \<^verbatim>\<open>except Exception\<close> handler, which logs the error and
  returns \<^verbatim>\<open>(None, set())\<close>. The chunk size of the source is \<^verbatim>\<open>1024*1024\<close>.
\<close>

definition process_file_chunked ::
  "nat \<Rightarrow> (pathname \<Rightarrow> shard) \<Rightarrow> scratch_file \<Rightarrow> nat \<Rightarrow> nat \<Rightarrow> pathname \<times> string \<times> pathname
     \<Rightarrow> fs \<Rightarrow> (pathname option \<times> nat set) \<times> fs" where
  "process_file_chunked n shards outfile pid rnd args fs =
     (case try_body n shards outfile pid rnd args fs of
        (Inl e, fs') \<Rightarrow> ((None, {}), fs')
      | (Inr (temp_out, chars), fs') \<Rightarrow> ((Some temp_out, chars), fs'))"

definition process_file ::
  "(pathname \<Rightarrow> shard) \<Rightarrow> scratch_file \<Rightarrow> nat \<Rightarrow> nat \<Rightarrow> pathname \<times> string \<times> pathname \<Rightarrow> fs
     \<Rightarrow> (pathname option \<times> nat set) \<times> fs" where
  "process_file = process_file_chunked (1024 * 1024)"

subsection \<open>Discovery: \<^verbatim>\<open>xz_files_in_dir\<close>\<close>

text \<open>
  What \<^verbatim>\<open>os.path.exists\<close>, \<^verbatim>\<open>os.listdir\<close> and \<^verbatim>\<open>os.path.isfile\<close> observe of the
  source directory: it is missing, it is not a directory, or it has entries, listed in the
  order of \<^verbatim>\<open>os.listdir\<close>, each with the answer of \<^verbatim>\<open>os.path.isfile\<close>.
\<close>

datatype source_dir = Missing | NotADirectory | Directory "(string \<times> bool) list"

definition endswith :: "string \<Rightarrow> string \<Rightarrow> bool" where
  "endswith s suffix = (length suffix \<le> length s \<and> drop (length s - length suffix) s = suffix)"

definition xz_files_in_dir :: "source_dir \<Rightarrow> error + string list" where
  "xz_files_in_dir directory =
     (case directory of
        Missing \<Rightarrow> Inl OSError
      | NotADirectory \<Rightarrow> Inl NotADirectoryError
      | Directory entries \<Rightarrow>
          Inr (map fst (filter (\<lambda>(filename, isfile). endswith filename ''.xz'' \<and> isfile) entries)))"

subsection \<open>Split and sample\<close>

text \<open>
  \<^verbatim>\<open>random.sample(population, k)\<close> raises \<^verbatim>\<open>ValueError\<close> when \<open>k\<close> exceeds the size
  of the population, and otherwise returns the elements at \<open>k\<close> distinct positions in
  the order in which it drew them. The positions drawn are an input of the model;
  \<open>valid_picks\<close> says what the library guarantees of them.
\<close>

definition sample :: "'a list \<Rightarrow> nat \<Rightarrow> nat list \<Rightarrow> error + 'a list" where
  "sample population k picks =
     (if length population < k then Inl ValueError else Inr (map ((!) population) picks))"

definition valid_picks :: "nat \<Rightarrow> nat \<Rightarrow> nat list \<Rightarrow> bool" where
  "valid_picks n k picks = (length picks = k \<and> distinct picks \<and> list_all (\<lambda>i. i < n) picks)"

text \<open>
  Lines 105 to 113 of \<^verbatim>\<open>main\<close>. \<^verbatim>\<open>int(total_files * 0.9)\<close> and
  \<^verbatim>\<open>int(n * 0.01)\<close> are computed in binary floating point; for every list length below
  \<open>10^14\<close> they are \<open>9 * total_files div 10\<close> and \<open>n div 100\<close>.
\<close>

definition sample_size :: "nat \<Rightarrow> nat" where
  "sample_size n = max 1 (n div 100)"

definition split_and_sample ::
  "string list \<Rightarrow> nat list \<Rightarrow> nat list \<Rightarrow> error + (string list \<times> string list)" where
  "split_and_sample files picks_t picks_v =
     (let total_files = length files;
          split_index = total_files * 9 div 10;
          files_train = take split_index files;
          files_val = drop split_index files
      in (case sample files_train (sample_size (length files_train)) picks_t of
            Inl e \<Rightarrow> Inl e
          | Inr files_train_sampled \<Rightarrow>
              (case sample files_val (sample_size (length files_val)) picks_v of
                 Inl e \<Rightarrow> Inl e
               | Inr files_val_sampled \<Rightarrow> Inr (files_train_sampled, files_val_sampled))))"

subsection \<open>The worker pool and the merge: \<^verbatim>\<open>process_files_in_parallel\<close>\<close>

text \<open>
  What one run takes from its environment: the name of the directory that
  \<^verbatim>\<open>tempfile.TemporaryDirectory()\<close> creates, the process id and random draw of the
  worker call of each task, what the file system lets that call do with its scratch file,
  and the order in which the pool completes the tasks.
\<close>

record run_env =
  temp_dir :: pathname
  ids :: "nat \<Rightarrow> nat \<times> nat"
  scratch :: "nat \<Rightarrow> scratch_file"
  sched :: "nat list"

type_synonym result = "pathname option \<times> nat set"

text \<open>
  The pool runs the tasks in the order of the schedule, each call of the worker to its
  end; \<^verbatim>\<open>executor.map\<close> hands the results back in the order of submission. A schedule
  is valid when it runs every task exactly once.
\<close>

fun run_tasks ::
  "(nat \<Rightarrow> fs \<Rightarrow> result \<times> fs) \<Rightarrow> nat list \<Rightarrow> (nat \<rightharpoonup> result) \<times> fs \<Rightarrow> (nat \<rightharpoonup> result) \<times> fs" where
  "run_tasks job [] st = st"
| "run_tasks job (i # rest) st =
     (case st of (finished, fs) \<Rightarrow>
        (case job i fs of (r, fs') \<Rightarrow> run_tasks job rest (finished(i \<mapsto> r), fs')))"

definition valid_sched :: "nat \<Rightarrow> nat list \<Rightarrow> bool" where
  "valid_sched n order = (distinct order \<and> set order = set [0..<n])"

definition executor_map ::
  "(nat \<Rightarrow> 'a \<Rightarrow> fs \<Rightarrow> result \<times> fs) \<Rightarrow> 'a list \<Rightarrow> nat list \<Rightarrow> fs \<Rightarrow> result list \<times> fs" where
  "executor_map worker args order fs =
     (case run_tasks (\<lambda>i. worker i (args ! i)) order (Map.empty, fs) of
        (finished, fs') \<Rightarrow> (map (\<lambda>i. the (finished i)) [0..<length args], fs'))"

definition read_all :: "fs \<Rightarrow> pathname \<Rightarrow> unicode" where
  "read_all fs p = (case fs p of None \<Rightarrow> [] | Some t \<Rightarrow> t)"

definition append_to :: "fs \<Rightarrow> pathname \<Rightarrow> unicode \<Rightarrow> fs" where
  "append_to fs p t = fs(p \<mapsto> read_all fs p @ t)"

record merge_state =
  success_count :: nat
  failure_count :: nat
  all_chars :: "nat set"
  fsys :: fs

text \<open>
  The loop \<^verbatim>\<open>for temp_path, chars in results\<close>. \<^verbatim>\<open>shutil.copyfileobj\<close> appends the
  whole scratch file to the output file.
\<close>

fun merge_results :: "bool \<Rightarrow> pathname \<Rightarrow> result list \<Rightarrow> merge_state \<Rightarrow> merge_state" where
  "merge_results collect_vocab output_file [] st = st"
| "merge_results collect_vocab output_file ((temp_path, chars) # rest) st =
     (case temp_path of
        None \<Rightarrow>
          merge_results collect_vocab output_file rest
            (st\<lparr>failure_count := failure_count st + 1\<rparr>)
      | Some p \<Rightarrow>
          if p \<noteq> [] \<and> fsys st p \<noteq> None then
            merge_results collect_vocab output_file rest
              (st\<lparr>success_count := success_count st + 1,
                  fsys := append_to (fsys st) output_file (read_all (fsys st) p),
                  all_chars := (if collect_vocab then all_chars st \<union> chars else all_chars st)\<rparr>)
          else
            merge_results collect_vocab output_file rest
              (st\<lparr>failure_count := failure_count st + 1\<rparr>))"

text \<open>
  The body of \<^verbatim>\<open>with tempfile.TemporaryDirectory() as temp_dir\<close>: the pool, then the
  merge into the output file, which \<^verbatim>\<open>open(output_file, "a")\<close> creates when it does
  not exist.
\<close>

definition in_temp_dir ::
  "(pathname \<Rightarrow> shard) \<Rightarrow> run_env \<Rightarrow> string list \<Rightarrow> pathname \<Rightarrow> pathname \<Rightarrow> bool \<Rightarrow> fs
     \<Rightarrow> merge_state" where
  "in_temp_dir shards R files folder_path output_file collect_vocab fs =
     (let args = map (\<lambda>filename. (folder_path, filename, temp_dir R)) files
      in (case executor_map
                  (\<lambda>i. process_file shards (scratch R i) (fst (ids R i)) (snd (ids R i)))
                  args (sched R) fs of
            (results, fs1) \<Rightarrow>
              merge_results collect_vocab output_file results
                \<lparr>success_count = 0, failure_count = 0, all_chars = {},
                 fsys = append_to fs1 output_file []\<rparr>))"

text \<open>
  Leaving the \<^verbatim>\<open>with\<close> block removes the temporary directory with everything in it:
  every file whose path lies below the directory.
\<close>

definition dir_prefix :: "pathname \<Rightarrow> pathname" where
  "dir_prefix a = (if a = [] \<or> last a = CHR ''/'' then a else a @ ''/'')"

definition inside :: "pathname \<Rightarrow> pathname \<Rightarrow> bool" where
  "inside d p = (take (length (dir_prefix d)) p = dir_prefix d)"

definition rmtree :: "pathname \<Rightarrow> fs \<Rightarrow> fs" where
  "rmtree d fs = (\<lambda>p. if inside d p then None else fs p)"

text \<open>
  \<^verbatim>\<open>process_files_in_parallel\<close> returns \<^verbatim>\<open>all_chars if collect_vocab else None\<close>; the
  two counts that it logs and prints are returned with it.
\<close>

definition process_files_in_parallel ::
  "(pathname \<Rightarrow> shard) \<Rightarrow> run_env \<Rightarrow> string list \<Rightarrow> pathname \<Rightarrow> pathname \<Rightarrow> bool \<Rightarrow> fs
     \<Rightarrow> (nat set option \<times> nat \<times> nat) \<times> fs" where
  "process_files_in_parallel shards R files folder_path output_file collect_vocab fs =
     (let st = in_temp_dir shards R files folder_path output_file collect_vocab fs
      in ((if collect_vocab then Some (all_chars st) else None,
           success_count st, failure_count st),
          rmtree (temp_dir R) (fsys st)))"

subsection \<open>The driver \<^verbatim>\<open>main\<close>\<close>

definition folder_path :: pathname where "folder_path = ''openwebtext''"
definition output_file_train :: pathname where "output_file_train = ''output_train.txt''"
definition output_file_val :: pathname where "output_file_val = ''output_val.txt''"
definition vocab_file :: pathname where "vocab_file = ''vocab.txt''"

record env =
  source :: source_dir
  shards :: "pathname \<Rightarrow> shard"
  picks_train :: "nat list"
  picks_val :: "nat list"
  run_train :: run_env
  run_val :: run_env

text \<open>What \<^verbatim>\<open>main\<close> prints before it returns.\<close>

datatype report = DirectoryNotFound | NoXzFiles | Complete

text \<open>Python's truth value of a set or \<^verbatim>\<open>None\<close>, and its \<^verbatim>\<open>or\<close>.\<close>

definition truthy :: "nat set option \<Rightarrow> bool" where
  "truthy x = (case x of None \<Rightarrow> False | Some s \<Rightarrow> s \<noteq> {})"

definition py_or :: "nat set option \<Rightarrow> nat set option \<Rightarrow> nat set option" where
  "py_or a b = (if truthy a then a else b)"

text \<open>
  \<^verbatim>\<open>train_chars.union(val_chars) if train_chars and val_chars else train_chars or val_chars\<close>;
  \<open>the\<close> is applied to truthy values only.
\<close>

definition combine_chars :: "nat set option \<Rightarrow> nat set option \<Rightarrow> nat set option" where
  "combine_chars train_chars val_chars =
     (if truthy train_chars \<and> truthy val_chars then Some (the train_chars \<union> the val_chars)
      else py_or train_chars val_chars)"

text \<open>The lines written to the vocabulary file: each character, then a line feed.\<close>

definition vocab_lines :: "nat set \<Rightarrow> unicode" where
  "vocab_lines cs = concat (map (\<lambda>c. [c, 10]) (sorted_list_of_set cs))"

definition main :: "env \<Rightarrow> fs \<Rightarrow> (error + report) \<times> fs" where
  "main E fs =
     (if source E = Missing then (Inr DirectoryNotFound, fs)
      else
        (case xz_files_in_dir (source E) of
           Inl e \<Rightarrow> (Inl e, fs)
         | Inr files \<Rightarrow>
             if length files = 0 then (Inr NoXzFiles, fs)
             else
               (case split_and_sample files (picks_train E) (picks_val E) of
                  Inl e \<Rightarrow> (Inl e, fs)
                | Inr (files_train_sampled, files_val_sampled) \<Rightarrow>
                    let fs1 = fs(output_file_train \<mapsto> [], output_file_val \<mapsto> [])
                    in (case process_files_in_parallel (shards E) (run_train E)
                               files_train_sampled folder_path output_file_train True fs1 of
                          ((train_chars, counts_train), fs2) \<Rightarrow>
                            (case process_files_in_parallel (shards E) (run_val E)
                                    files_val_sampled folder_path output_file_val True fs2 of
                               ((val_chars, counts_val), fs3) \<Rightarrow>
                                 if truthy (py_or train_chars val_chars) then
                                   (Inr Complete,
                                    fs3(vocab_file \<mapsto>
                                          vocab_lines (the (combine_chars train_chars val_chars))))
                                 else (Inr Complete, fs3))))))"

subsection \<open>Vocabulary of the statements\<close>

text \<open>
  A shard is intact when it opens and its stream decodes to the end; \<open>decoded\<close> is the
  text of an intact shard and the empty text for any other.
\<close>

definition intact :: "(pathname \<Rightarrow> shard) \<Rightarrow> pathname \<Rightarrow> string \<Rightarrow> bool" where
  "intact sh directory filename =
     (case sh (join directory filename) of Unopenable \<Rightarrow> False | Stream t brk \<Rightarrow> \<not> brk)"

definition decoded :: "(pathname \<Rightarrow> shard) \<Rightarrow> pathname \<Rightarrow> string \<Rightarrow> unicode" where
  "decoded sh directory filename =
     (case sh (join directory filename) of
        Unopenable \<Rightarrow> []
      | Stream t brk \<Rightarrow> if brk then [] else t)"

text \<open>
  A scratch file takes a text when it opens and has room for the whole of it. The
  processing of a shard completes when no decode error and no I/O error occurs: the shard
  is intact and its scratch file takes its text.
\<close>

definition takes :: "scratch_file \<Rightarrow> unicode \<Rightarrow> bool" where
  "takes outfile t = (case outfile of CannotOpen \<Rightarrow> False | Room room \<Rightarrow> length t \<le> room)"

definition completes :: "(pathname \<Rightarrow> shard) \<Rightarrow> scratch_file \<Rightarrow> pathname \<Rightarrow> string \<Rightarrow> bool" where
  "completes sh outfile directory filename =
     (intact sh directory filename \<and> takes outfile (decoded sh directory filename))"

text \<open>
  The text that reads of \<open>n\<close> code points deliver from a stream: all of it when the
  stream is sound, the whole chunks before the break otherwise. \<open>written\<close> is what a
  call of the shard reader leaves in its scratch file: nothing (\<open>None\<close>) when the shard
  or the scratch file does not open, else as much of the delivered text as the file has
  room for.
\<close>

definition delivered :: "nat \<Rightarrow> unicode \<times> bool \<Rightarrow> unicode" where
  "delivered n s = (case s of (t, brk) \<Rightarrow> if brk then take (n * (length t div n)) t else t)"

definition written :: "nat \<Rightarrow> shard \<Rightarrow> scratch_file \<Rightarrow> unicode option" where
  "written n s outfile =
     (case s of
        Unopenable \<Rightarrow> None
      | Stream t brk \<Rightarrow>
          (case outfile of
             CannotOpen \<Rightarrow> None
           | Room room \<Rightarrow> Some (take room (delivered n (t, brk)))))"

text \<open>
  Processing a shard in one piece, as the specification words it: the whole decoded text
  is written and its distinct characters are collected; a shard that does not decode, or
  whose scratch file does not take the text, yields nothing.
\<close>

definition one_piece :: "shard \<Rightarrow> scratch_file \<Rightarrow> (unicode \<times> nat set) option" where
  "one_piece s outfile =
     (case s of
        Unopenable \<Rightarrow> None
      | Stream t brk \<Rightarrow> if brk \<or> \<not> takes outfile t then None else Some (t, set t))"

text \<open>
  What the merge loop does with one result in a given file system: whether it takes the
  success branch, and the text it then appends.
\<close>

definition merged :: "fs \<Rightarrow> result \<Rightarrow> bool" where
  "merged fs r = (case fst r of None \<Rightarrow> False | Some p \<Rightarrow> p \<noteq> [] \<and> fs p \<noteq> None)"

definition merged_text :: "fs \<Rightarrow> result \<Rightarrow> unicode" where
  "merged_text fs r = (case fst r of None \<Rightarrow> [] | Some p \<Rightarrow> if p \<noteq> [] \<and> fs p \<noteq> None then read_all fs p else [])"

text \<open>
  The task at position \<open>i\<close> of a run succeeds when its processing completes; \<open>successful\<close>
  lists the shards of the tasks that succeed, in the order of submission. \<open>task_result\<close>
  is the result that the worker hands back for the task at position \<open>i\<close>.
\<close>

definition succeeds :: "(pathname \<Rightarrow> shard) \<Rightarrow> run_env \<Rightarrow> pathname \<Rightarrow> string list \<Rightarrow> nat \<Rightarrow> bool" where
  "succeeds sh R d files i = completes sh (scratch R i) d (files ! i)"

definition successful :: "(pathname \<Rightarrow> shard) \<Rightarrow> run_env \<Rightarrow> pathname \<Rightarrow> string list \<Rightarrow> string list" where
  "successful sh R d files = map ((!) files) (filter (succeeds sh R d files) [0..<length files])"

definition task_result :: "(pathname \<Rightarrow> shard) \<Rightarrow> run_env \<Rightarrow> pathname \<Rightarrow> string list \<Rightarrow> nat \<Rightarrow> result" where
  "task_result sh R d files i =
     (if succeeds sh R d files i
      then (Some (temp_output (temp_dir R) (fst (ids R i)) (snd (ids R i)) (files ! i)),
            set (decoded sh d (files ! i)))
      else (None, {}))"

text \<open>
  The two parts of the discovered list that \<^verbatim>\<open>main\<close> samples from
  (\<^verbatim>\<open>files[:split_index]\<close> and \<^verbatim>\<open>files[split_index:]\<close>), and the two lists it hands
  to the runs.
\<close>

definition files_train :: "string list \<Rightarrow> string list" where
  "files_train files = take (length files * 9 div 10) files"

definition files_val :: "string list \<Rightarrow> string list" where
  "files_val files = drop (length files * 9 div 10) files"

definition train_sampled :: "env \<Rightarrow> string list \<Rightarrow> string list" where
  "train_sampled E files = map ((!) (files_train files)) (picks_train E)"

definition val_sampled :: "env \<Rightarrow> string list \<Rightarrow> string list" where
  "val_sampled E files = map ((!) (files_val files)) (picks_val E)"

text \<open>
  The sampled shards whose tasks succeed in the training run and in the validation run,
  and the characters of their texts: what the two runs collect together.
\<close>

definition train_successful :: "env \<Rightarrow> string list \<Rightarrow> string list" where
  "train_successful E files =
     successful (shards E) (run_train E) folder_path (train_sampled E files)"

definition val_successful :: "env \<Rightarrow> string list \<Rightarrow> string list" where
  "val_successful E files =
     successful (shards E) (run_val E) folder_path (val_sampled E files)"

definition collected :: "env \<Rightarrow> string list \<Rightarrow> nat set" where
  "collected E files =
     (\<Union>f\<in>set (train_successful E files @ val_successful E files).
        set (decoded (shards E) folder_path f))"

text \<open>
  What an execution of \<^verbatim>\<open>main\<close> may rely on. \<^verbatim>\<open>os.listdir\<close> lists every name once;
  \<^verbatim>\<open>random.sample\<close> draws distinct positions of its population, as many as asked for;
  the pool of each run completes every task once; and the directory that
  \<^verbatim>\<open>tempfile.TemporaryDirectory()\<close> makes for a run is a fresh one, with none of the three
  destination files below it. Nothing is asked of the draws when fewer than two files are
  discovered, for then \<^verbatim>\<open>main\<close> returns or raises before it uses them.
\<close>

definition usable_run :: "run_env \<Rightarrow> nat \<Rightarrow> bool" where
  "usable_run R n =
     (valid_sched n (sched R) \<and> \<not> inside (temp_dir R) output_file_train
      \<and> \<not> inside (temp_dir R) output_file_val \<and> \<not> inside (temp_dir R) vocab_file)"

definition well_formed :: "env \<Rightarrow> bool" where
  "well_formed E =
     (case xz_files_in_dir (source E) of
        Inl e \<Rightarrow> True
      | Inr files \<Rightarrow>
          2 \<le> length files \<longrightarrow>
            distinct files
            \<and> valid_picks (length (files_train files)) (sample_size (length (files_train files)))
                  (picks_train E)
            \<and> valid_picks (length (files_val files)) (sample_size (length (files_val files)))
                  (picks_val E)
            \<and> usable_run (run_train E) (sample_size (length (files_train files)))
            \<and> usable_run (run_val E) (sample_size (length (files_val files))))"

subsection \<open>Example inputs\<close>

text \<open>
  Three shards of the source directory: \<open>a.xz\<close> decodes to \<open>hi\<close>, \<open>b.xz\<close> decodes to
  \<open>yo\<close>, \<open>c.xz\<close> breaks after one character; no other file opens. Two runs whose
  scratch files all open and have room for 4096 code points: in the first the pool
  completes the second task before the first.
\<close>

definition sh0 :: "pathname \<Rightarrow> shard" where
  "sh0 p = (if p = ''openwebtext/a.xz'' then Stream [104, 105] False
            else if p = ''openwebtext/b.xz'' then Stream [121, 111] False
            else if p = ''openwebtext/c.xz'' then Stream [33] True
            else Unopenable)"

definition run0 :: run_env where
  "run0 = \<lparr>temp_dir = ''/tmp/t'', ids = (\<lambda>i. (7, 1234)), scratch = (\<lambda>i. Room 4096),
           sched = [1, 0]\<rparr>"

definition run1 :: run_env where
  "run1 = \<lparr>temp_dir = ''/tmp/u'', ids = (\<lambda>i. (8, 4321)), scratch = (\<lambda>i. Room 4096),
           sched = [0, 1]\<rparr>"

text \<open>
  A run of three tasks in which the scratch file of the third task cannot be opened.
\<close>

definition run2 :: run_env where
  "run2 = \<lparr>temp_dir = ''/tmp/t'', ids = (\<lambda>i. (7, 1234)),
           scratch = (\<lambda>i. if i = 2 then CannotOpen else Room 4096), sched = [2, 0, 1]\<rparr>"

text \<open>A shard whose stream breaks after one full chunk and two more characters.\<close>

definition broken_shard :: "pathname \<Rightarrow> shard" where
  "broken_shard p = Stream (replicate (1024 * 1024) 97 @ [98, 99]) True"

text \<open>
  A source directory with the shards \<open>a.xz\<close> and \<open>b.xz\<close> and one other file: the first
  shard is the training part, the second the validation part. The same with the two shards
  that do not decode. A list of 223 shard names, the shortest whose training part is
  sampled twice.
\<close>

definition env0 :: env where
  "env0 = \<lparr>source = Directory [(''a.xz'', True), (''notes.txt'', True), (''b.xz'', True)],
            shards = sh0, picks_train = [0], picks_val = [0],
            run_train = \<lparr>temp_dir = ''/tmp/t'', ids = (\<lambda>i. (7, 1234)),
                         scratch = (\<lambda>i. Room 4096), sched = [0]\<rparr>,
            run_val = \<lparr>temp_dir = ''/tmp/u'', ids = (\<lambda>i. (8, 4321)),
                       scratch = (\<lambda>i. Room 4096), sched = [0]\<rparr>\<rparr>"

definition env_failing :: env where
  "env_failing = env0\<lparr>source := Directory [(''c.xz'', True), (''d.xz'', True)]\<rparr>"

definition files223 :: "string list" where
  "files223 = map (\<lambda>i. str i @ ''.xz'') [0..<223]"

section \<open>Properties\<close>

subsection \<open>Decimal numerals and scratch paths\<close>

lemma digit_in: "d < 10 \<Longrightarrow> digit d \<in> set ''0123456789''"
  unfolding digit_def by (rule nth_mem) simp

lemma digit_inj: "d < 10 \<Longrightarrow> e < 10 \<Longrightarrow> digit d = digit e \<Longrightarrow> d = e"
proof -
  assume a: "d < 10" "e < 10" "digit d = digit e"
  have "distinct ''0123456789''" by simp
  moreover have "d < length ''0123456789''" "e < length ''0123456789''" using a by simp_all
  ultimately show "d = e" using a(3) unfolding digit_def
    by (simp only: nth_eq_iff_index_eq)
qed

lemma str_not_Nil: "str n \<noteq> []"
  by (subst str.simps) simp

lemma str_digits: "set (str n) \<subseteq> set ''0123456789''"
proof (induction n rule: str.induct)
  case (1 n)
  show ?case
  proof (cases "n < 10")
    case True
    then show ?thesis using digit_in [of n] by (subst str.simps) simp
  next
    case False
    then show ?thesis using 1 digit_in [of "n mod 10"] by (subst str.simps) simp
  qed
qed

lemma str_inj: "str n = str m \<Longrightarrow> n = m"
proof (induction n arbitrary: m rule: str.induct)
  case (1 n)
  show ?case
  proof (cases "n < 10")
    case n: True
    show ?thesis
    proof (cases "m < 10")
      case True
      with n 1(2) show ?thesis by (simp add: str.simps [of n] str.simps [of m] digit_inj)
    next
      case False
      with n 1(2) show ?thesis
        by (simp add: str.simps [of n] str.simps [of m] str_not_Nil [THEN not_sym])
    qed
  next
    case n: False
    show ?thesis
    proof (cases "m < 10")
      case True
      with n 1(2) show ?thesis
        by (simp add: str.simps [of n] str.simps [of m] str_not_Nil)
    next
      case False
      with n 1(2) have e: "str (n div 10) = str (m div 10)" "digit (n mod 10) = digit (m mod 10)"
        by (simp_all add: str.simps [of n] str.simps [of m])
      from 1(1) [OF n e(1)] have "n div 10 = m div 10" .
      moreover from e(2) have "n mod 10 = m mod 10" by (simp add: digit_inj)
      ultimately show ?thesis by (metis div_mult_mod_eq)
    qed
  qed
qed

lemma split_at_sep:
  "c \<notin> set xs \<Longrightarrow> c \<notin> set ys \<Longrightarrow> xs @ c # r = ys @ c # r' \<Longrightarrow> xs = ys \<and> r = r'"
proof (induction xs arbitrary: ys)
  case Nil
  then show ?case by (cases ys) auto
next
  case (Cons x xs)
  then show ?case by (cases ys) auto
qed

lemma underscore_not_in_str: "CHR ''_'' \<notin> set (str n)"
  using str_digits [of n] by auto

lemma slash_not_hd_str: "hd (str n) \<noteq> CHR ''/''"
proof -
  have "hd (str n) \<in> set (str n)" using str_not_Nil by simp
  then show ?thesis using str_digits [of n] by auto
qed

lemma temp_output_eq:
  "temp_output d p r f = dir_prefix d @ str p @ ''_'' @ str r @ ''_'' @ f @ ''.txt''"
  using slash_not_hd_str [of p] str_not_Nil [of p]
  by (simp add: temp_output_def join_def unique_id_def dir_prefix_def)

lemma temp_output_inj:
  assumes "temp_output d p r f = temp_output d p' r' f'"
  shows "p = p' \<and> r = r' \<and> f = f'"
proof -
  from assms have "str p @ CHR ''_'' # (str r @ CHR ''_'' # f @ ''.txt'')
      = str p' @ CHR ''_'' # (str r' @ CHR ''_'' # f' @ ''.txt'')"
    by (simp add: temp_output_eq)
  from split_at_sep [OF underscore_not_in_str underscore_not_in_str this]
  have a: "str p = str p'" and b: "str r @ CHR ''_'' # f @ ''.txt'' = str r' @ CHR ''_'' # f' @ ''.txt''"
    by simp_all
  from split_at_sep [OF underscore_not_in_str underscore_not_in_str b]
  have c: "str r = str r'" and d: "f @ ''.txt'' = f' @ ''.txt''" by simp_all
  from a c d show ?thesis by (simp add: str_inj)
qed

subsection \<open>The shard reader\<close>

lemma read_Nil_iff: "0 < n \<Longrightarrow> read n (t, brk) = Inr (c, s) \<Longrightarrow> (c = [] \<longrightarrow> fst s = []) \<and> snd s = brk \<and> (brk \<longrightarrow> c \<noteq> [])"
  by (auto simp: read_def split: if_splits)

lemma take_whole_chunks:
  assumes "0 < n" "n \<le> length t"
  shows "take n t @ take (n * (length (drop n t) div n)) (drop n t) = take (n * (length t div n)) t"
proof -
  have "length t div n = Suc ((length t - n) div n)"
    using assms by (simp add: le_div_geq)
  then have "n * (length t div n) = n + n * ((length t - n) div n)" by simp
  then show ?thesis by (simp add: take_add)
qed

lemma read_delivered:
  assumes "0 < n" "read n (t, brk) = Inr (c, s)"
  shows "c @ delivered n s = delivered n (t, brk)" and "c @ fst s = t"
proof -
  show "c @ delivered n s = delivered n (t, brk)"
  proof (cases "n \<le> length t")
    case True
    with assms(2) have c: "c = take n t" "s = (drop n t, brk)" by (simp_all add: read_def)
    show ?thesis
      using take_whole_chunks [OF assms(1) True] by (simp add: c delivered_def)
  next
    case False
    with assms(2) have "c = t" "s = ([], False)" "\<not> brk"
      by (auto simp: read_def split: if_splits)
    then show ?thesis by (simp add: delivered_def)
  qed
  show "c @ fst s = t"
    using assms(2) by (auto simp: read_def split: if_splits)
qed

lemma read_error:
  assumes "0 < n" "read n (t, brk) = Inl e"
  shows "brk" and "delivered n (t, brk) = []"
  using assms by (auto simp: read_def delivered_def split: if_splits)

text \<open>
  The loop leaves in the scratch file as much of the text that the reads deliver as the
  file has room for, and it ends without an exception exactly when the stream is sound
  and the file has room for all of it.
\<close>

lemma chunk_loop_effect:
  assumes "0 < n" "length out \<le> room" "chunk = [] \<longrightarrow> fst s = []" "snd s \<longrightarrow> chunk \<noteq> []"
  shows "\<exists>chars' e. chunk_loop n room chunk s out chars
             = (take room (out @ chunk @ delivered n s), chars', e)
           \<and> (e = None \<longleftrightarrow> \<not> snd s \<and> length (out @ chunk @ fst s) \<le> room)
           \<and> (e = None \<longrightarrow> chars' = chars \<union> set chunk \<union> set (fst s))"
  using assms
proof (induction n room chunk s out chars rule: chunk_loop.induct)
  case (1 n room chunk s out chars)
  obtain t brk where s: "s = (t, brk)" by (cases s)
  show ?case
  proof (cases "chunk = []")
    case True
    with 1(4,5) s have "t = []" "\<not> brk" by auto
    then show ?thesis
      using True s 1(3) by (simp add: chunk_loop.simps [of n room "[]"] delivered_def)
  next
    case ne: False
    show ?thesis
    proof (cases "length out + length chunk \<le> room")
      case False
      then have w: "outfile_write room out chunk = Inl OSError" by (simp add: outfile_write_def)
      have "chunk_loop n room chunk s out chars = (take room (out @ chunk), chars, Some OSError)"
        using ne w by (subst chunk_loop.simps) simp
      moreover have "take room (out @ chunk @ delivered n s) = take room (out @ chunk)"
        using False by simp
      ultimately show ?thesis using False by auto
    next
      case True
      then have w: "outfile_write room out chunk = Inr (out @ chunk)" by (simp add: outfile_write_def)
      have fit: "take room (out @ chunk) = out @ chunk" using True by simp
      show ?thesis
      proof (cases "read n s")
        case (Inl e)
        from read_error [OF 1(2) Inl [unfolded s]]
        have b: "brk" "delivered n s = []" by (simp_all add: s)
        have "chunk_loop n room chunk s out chars = (out @ chunk, chars \<union> set chunk, Some e)"
          using ne w Inl by (subst chunk_loop.simps) simp
        then show ?thesis using b s fit by simp
      next
        case (Inr cs)
        obtain c s' where cs: "cs = (c, s')" by (cases cs)
        from read_Nil_iff [OF 1(2) Inr [unfolded cs s]]
        have rs: "c = [] \<longrightarrow> fst s' = []" "snd s' = brk" "brk \<longrightarrow> c \<noteq> []" by simp_all
        from read_delivered [OF 1(2) Inr [unfolded cs s]]
        have dl: "c @ delivered n s' = delivered n s" "c @ fst s' = t" by (simp_all add: s)
        have l: "length (out @ chunk) \<le> room" using True by simp
        have r2: "snd s' \<longrightarrow> c \<noteq> []" using rs by simp
        from 1(1) [OF ne w Inr cs [symmetric] 1(2) l rs(1) r2]
        obtain chars' e where
          ih: "chunk_loop n room c s' (out @ chunk) (chars \<union> set chunk)
                 = (take room ((out @ chunk) @ c @ delivered n s'), chars', e)"
          and e: "e = None \<longleftrightarrow> \<not> snd s' \<and> length ((out @ chunk) @ c @ fst s') \<le> room"
          and ch: "e = None \<longrightarrow> chars' = (chars \<union> set chunk) \<union> set c \<union> set (fst s')"
          by blast
        have step: "chunk_loop n room chunk s out chars
                      = chunk_loop n room c s' (out @ chunk) (chars \<union> set chunk)"
          using ne w Inr cs by (subst chunk_loop.simps) simp
        have st: "set c \<union> set (fst s') = set t"
          using dl(2) by (metis set_append)
        have 1: "chunk_loop n room chunk s out chars
                   = (take room (out @ chunk @ delivered n s), chars', e)"
          using ih dl(1) by (simp add: step)
        have 2: "e = None \<longleftrightarrow> \<not> snd s \<and> length (out @ chunk @ fst s) \<le> room"
          using e dl(2) rs(2) s by auto
        have 3: "e = None \<longrightarrow> chars' = chars \<union> set chunk \<union> set (fst s)"
          using ch st s by (auto simp: Un_assoc)
        from 1 2 3 show ?thesis by blast
      qed
    qed
  qed
qed

lemma written_completes:
  "completes sh outfile d f \<Longrightarrow> written n (sh (join d f)) outfile = Some (decoded sh d f)"
  by (auto simp: completes_def intact_def takes_def decoded_def written_def delivered_def
      split: shard.splits scratch_file.splits)

text \<open>
  The whole effect of a call of the shard reader: the value it returns, and the file
  system it leaves, in which only the scratch file of the call can differ.
\<close>

lemma process_file_chunked_effect:
  assumes "0 < n"
  shows "process_file_chunked n sh outfile p r (d, f, td) fs =
           ((if completes sh outfile d f
             then (Some (temp_output td p r f), set (decoded sh d f)) else (None, {})),
            (case written n (sh (join d f)) outfile of
               None \<Rightarrow> fs
             | Some c \<Rightarrow> fs(temp_output td p r f \<mapsto> c)))"
proof (cases "sh (join d f)")
  case Unopenable
  then show ?thesis
    by (simp add: process_file_chunked_def try_body_def completes_def intact_def written_def
        Let_def)
next
  case (Stream t brk)
  show ?thesis
  proof (cases outfile)
    case CannotOpen
    with Stream show ?thesis
      by (simp add: process_file_chunked_def try_body_def completes_def takes_def written_def
          Let_def)
  next
    case (Room room)
    show ?thesis
    proof (cases "read n (t, brk)")
      case (Inl e)
      from read_error [OF assms Inl] have "brk" "delivered n (t, brk) = []" .
      with Stream Room Inl show ?thesis
        by (simp add: process_file_chunked_def try_body_def completes_def intact_def
            written_def Let_def)
    next
      case (Inr cs)
      obtain c s where cs: "cs = (c, s)" by (cases cs)
      from read_Nil_iff [OF assms Inr [unfolded cs]]
      have rs: "c = [] \<longrightarrow> fst s = []" "snd s = brk" "brk \<longrightarrow> c \<noteq> []" by simp_all
      from read_delivered [OF assms Inr [unfolded cs]]
      have dl: "c @ delivered n s = delivered n (t, brk)" "c @ fst s = t" .
      have r2: "snd s \<longrightarrow> c \<noteq> []" using rs by simp
      have l0: "length ([]::unicode) \<le> room" by simp
      from chunk_loop_effect [OF assms l0 rs(1) r2, of "{}"]
      obtain chars' e where
        cl: "chunk_loop n room c s [] {} = (take room (delivered n (t, brk)), chars', e)"
        and e: "e = None \<longleftrightarrow> \<not> brk \<and> length t \<le> room"
        and ch: "e = None \<longrightarrow> chars' = set t"
        using dl rs(2) by (auto simp: set_append [symmetric] simp del: set_append)
      have cm: "completes sh outfile d f \<longleftrightarrow> \<not> brk \<and> length t \<le> room"
        using Stream Room by (auto simp: completes_def intact_def takes_def decoded_def)
      have wr: "written n (sh (join d f)) outfile = Some (take room (delivered n (t, brk)))"
        using Stream Room by (simp add: written_def)
      have tb: "try_body n sh outfile p r (d, f, td) fs =
                  (case e of
                     None \<Rightarrow> (Inr (temp_output td p r f, chars'),
                              fs(temp_output td p r f \<mapsto> take room (delivered n (t, brk))))
                   | Some err \<Rightarrow> (Inl err,
                              fs(temp_output td p r f \<mapsto> take room (delivered n (t, brk)))))"
        using Stream Room Inr cs cl by (simp add: try_body_def Let_def split: option.splits)
      show ?thesis
      proof (cases e)
        case None
        with e ch have n: "\<not> brk" "length t \<le> room" "chars' = set t" by simp_all
        then have dc: "decoded sh d f = t" using Stream by (simp add: decoded_def)
        have c: "completes sh outfile d f" using cm n by simp
        show ?thesis
          unfolding process_file_chunked_def tb wr None using c n(3) dc by simp
      next
        case (Some err)
        with e have c: "\<not> completes sh outfile d f" using cm by simp
        show ?thesis
          unfolding process_file_chunked_def tb wr Some using c by simp
      qed
    qed
  qed
qed

text \<open>
  Claim C9. For every positive chunk size the shard reader returns what processing the
  shard in one piece returns: for a shard that decodes and whose scratch file takes the
  text, the scratch path with the set of the distinct characters of the whole decoded
  text, and the scratch file holds the whole decoded text, verbatim and in order; for any
  other shard the failure value with the empty set. The chunk size does not occur on the
  right-hand sides.
\<close>

theorem chunk_size_independent:
  assumes "0 < n"
  shows "fst (process_file_chunked n sh outfile pid rnd (d, f, td) fs) =
           (case one_piece (sh (join d f)) outfile of
              None \<Rightarrow> (None, {})
            | Some (t, cs) \<Rightarrow> (Some (temp_output td pid rnd f), cs))
       \<and> (\<forall>t cs. one_piece (sh (join d f)) outfile = Some (t, cs) \<longrightarrow>
             snd (process_file_chunked n sh outfile pid rnd (d, f, td) fs)
               = fs(temp_output td pid rnd f \<mapsto> t))"
proof (cases "completes sh outfile d f")
  case True
  have op: "one_piece (sh (join d f)) outfile = Some (decoded sh d f, set (decoded sh d f))"
    using True
    by (auto simp: one_piece_def completes_def intact_def decoded_def split: shard.splits)
  show ?thesis
    unfolding process_file_chunked_effect [OF assms] written_completes [OF True] op
    using True by simp
next
  case False
  have op: "one_piece (sh (join d f)) outfile = None"
    using False
    by (auto simp: one_piece_def completes_def intact_def decoded_def split: shard.splits)
  show ?thesis
    unfolding process_file_chunked_effect [OF assms] op using False by simp
qed

theorem chunk_size_independent_witness:
  "fst (process_file_chunked 2 (\<lambda>p. Stream [104, 105, 33] False) (Room 4096) 7 1234
          (''openwebtext'', ''a.xz'', ''/tmp/t'') Map.empty)
     = (Some ''/tmp/t/7_1234_a.xz.txt'', {104, 105, 33})
   \<and> snd (process_file_chunked 2 (\<lambda>p. Stream [104, 105, 33] False) (Room 4096) 7 1234
          (''openwebtext'', ''a.xz'', ''/tmp/t'') Map.empty) ''/tmp/t/7_1234_a.xz.txt''
     = Some [104, 105, 33]"
  using chunk_size_independent [of 2 "\<lambda>p. Stream [104, 105, 33] False" "Room 4096" 7 1234
          "''openwebtext''" "''a.xz''" "''/tmp/t''" Map.empty]
  by (simp add: one_piece_def takes_def temp_output_def join_def unique_id_def str.simps
      digit_def)

subsection \<open>Scratch paths of a run\<close>

text \<open>
  Claim C10. The tasks of a run differ in their file names only. Whatever process ids
  and random draws the worker calls see, tasks with distinct file names are given distinct
  scratch paths: the list of the scratch paths of a run has no duplicates.
\<close>

theorem scratch_paths_distinct:
  assumes "distinct files"
  shows "distinct (map (\<lambda>i. temp_output td (fst (idf i)) (snd (idf i)) (files ! i)) [0..<length files])"
proof -
  have "inj_on (\<lambda>i. temp_output td (fst (idf i)) (snd (idf i)) (files ! i)) (set [0..<length files])"
  proof (rule inj_onI)
    fix i j
    assume "i \<in> set [0..<length files]" "j \<in> set [0..<length files]"
      and "temp_output td (fst (idf i)) (snd (idf i)) (files ! i)
         = temp_output td (fst (idf j)) (snd (idf j)) (files ! j)"
    then have "i < length files" "j < length files" "files ! i = files ! j"
      using temp_output_inj by auto
    with assms show "i = j" by (simp add: nth_eq_iff_index_eq)
  qed
  then show ?thesis by (simp add: distinct_map)
qed

theorem scratch_paths_distinct_witness:
  "distinct [''a.xz'', ''b.xz''] \<and>
   distinct [temp_output ''/tmp/t'' 7 1234 ''a.xz'', temp_output ''/tmp/t'' 7 1234 ''b.xz'']"
  using scratch_paths_distinct [of "[''a.xz'', ''b.xz'']" "''/tmp/t''" "\<lambda>i. (7, 1234)"]
  by (simp add: upt_rec)

subsection \<open>The worker pool and the merge\<close>

lemma run_tasks_effect:
  assumes "\<forall>i\<in>set order. \<forall>fs. job i fs = (res i, case w i of None \<Rightarrow> fs | Some c \<Rightarrow> fs(pth i \<mapsto> c))"
    and "distinct order"
    and "\<forall>i\<in>set order. \<forall>j\<in>set order. pth i = pth j \<longrightarrow> i = j"
  shows "\<exists>fin' fs'. run_tasks job order (fin, fs) = (fin', fs')
           \<and> (\<forall>i. fin' i = (if i \<in> set order then Some (res i) else fin i))
           \<and> (\<forall>i\<in>set order. \<forall>c. w i = Some c \<longrightarrow> fs' (pth i) = Some c)
           \<and> (\<forall>q. (\<forall>i\<in>set order. pth i \<noteq> q) \<longrightarrow> fs' q = fs q)"
  using assms
proof (induction order arbitrary: fin fs)
  case Nil
  then show ?case by simp
next
  case (Cons i rest)
  define fs1 where "fs1 = (case w i of None \<Rightarrow> fs | Some c \<Rightarrow> fs(pth i \<mapsto> c))"
  have j: "job i fs = (res i, fs1)" using Cons.prems(1) by (simp add: fs1_def)
  have notin: "i \<notin> set rest" and d: "distinct rest" using Cons.prems(2) by simp_all
  have ne: "\<forall>k\<in>set rest. pth k \<noteq> pth i" using Cons.prems(3) notin by auto
  have p1: "\<forall>i\<in>set rest. \<forall>fs. job i fs = (res i, case w i of None \<Rightarrow> fs | Some c \<Rightarrow> fs(pth i \<mapsto> c))"
    using Cons.prems(1) by simp
  have p3: "\<forall>i\<in>set rest. \<forall>j\<in>set rest. pth i = pth j \<longrightarrow> i = j"
    using Cons.prems(3) by simp
  from Cons.IH [OF p1 d p3, of "fin(i \<mapsto> res i)" fs1]
  obtain fin' fs' where r: "run_tasks job rest (fin(i \<mapsto> res i), fs1) = (fin', fs')"
    and f: "\<forall>k. fin' k = (if k \<in> set rest then Some (res k) else (fin(i \<mapsto> res i)) k)"
    and s: "\<forall>k\<in>set rest. \<forall>c. w k = Some c \<longrightarrow> fs' (pth k) = Some c"
    and u: "\<forall>q. (\<forall>k\<in>set rest. pth k \<noteq> q) \<longrightarrow> fs' q = fs1 q"
    by blast
  have 1: "run_tasks job (i # rest) (fin, fs) = (fin', fs')" using j r by simp
  have 2: "\<forall>k. fin' k = (if k \<in> set (i # rest) then Some (res k) else fin k)"
    using f by auto
  have "fs' (pth i) = fs1 (pth i)" using u ne by simp
  then have 3: "\<forall>k\<in>set (i # rest). \<forall>c. w k = Some c \<longrightarrow> fs' (pth k) = Some c"
    using s by (auto simp: fs1_def)
  have 4: "\<forall>q. (\<forall>k\<in>set (i # rest). pth k \<noteq> q) \<longrightarrow> fs' q = fs q"
    using u by (auto simp: fs1_def split: option.splits)
  from 1 2 3 4 show ?case by blast
qed

lemma merged_cong:
  assumes "\<forall>r\<in>set rs. fst r \<noteq> Some out" "\<forall>q. q \<noteq> out \<longrightarrow> fs' q = fs q"
  shows "filter (merged fs') rs = filter (merged fs) rs"
    and "filter (\<lambda>r. \<not> merged fs' r) rs = filter (\<lambda>r. \<not> merged fs r) rs"
    and "map (merged_text fs') rs = map (merged_text fs) rs"
proof -
  have "\<forall>r\<in>set rs. merged fs' r = merged fs r \<and> merged_text fs' r = merged_text fs r"
    using assms by (auto simp: merged_def merged_text_def read_all_def split: option.splits)
  then show "filter (merged fs') rs = filter (merged fs) rs"
    and "filter (\<lambda>r. \<not> merged fs' r) rs = filter (\<lambda>r. \<not> merged fs r) rs"
    and "map (merged_text fs') rs = map (merged_text fs) rs"
    by (auto intro: filter_cong)
qed

lemma append_to_twice: "append_to (append_to fs p a) p b = append_to fs p (a @ b)"
  by (simp add: append_to_def read_all_def)

lemma append_to_other: "q \<noteq> p \<Longrightarrow> append_to fs p a q = fs q"
  by (simp add: append_to_def)

lemma merge_results_effect:
  assumes "\<forall>r\<in>set rs. fst r \<noteq> Some out"
  shows "success_count (merge_results cv out rs st)
           = success_count st + length (filter (merged (fsys st)) rs)
       \<and> failure_count (merge_results cv out rs st)
           = failure_count st + length (filter (\<lambda>r. \<not> merged (fsys st) r) rs)
       \<and> all_chars (merge_results cv out rs st)
           = (if cv then all_chars st \<union> \<Union> (snd ` set (filter (merged (fsys st)) rs))
              else all_chars st)
       \<and> (fsys st out \<noteq> None \<longrightarrow> fsys (merge_results cv out rs st)
           = append_to (fsys st) out (concat (map (merged_text (fsys st)) rs)))"
  using assms
proof (induction rs arbitrary: st)
  case Nil
  show ?case by (auto simp: append_to_def read_all_def fun_upd_idem)
next
  case (Cons r rs)
  obtain tp chars where r: "r = (tp, chars)" by (cases r)
  from Cons.prems have rest: "\<forall>r\<in>set rs. fst r \<noteq> Some out" by simp
  show ?case
  proof (cases "merged (fsys st) r")
    case False
    define st' where "st' = st\<lparr>failure_count := failure_count st + 1\<rparr>"
    have step: "merge_results cv out (r # rs) st = merge_results cv out rs st'"
      using False r by (auto simp: merged_def st'_def split: option.splits)
    have mt: "merged_text (fsys st) r = []"
      using False by (auto simp: merged_def merged_text_def split: option.splits)
    have "fsys st' = fsys st" "success_count st' = success_count st"
      "failure_count st' = failure_count st + 1" "all_chars st' = all_chars st"
      by (simp_all add: st'_def)
    with Cons.IH [OF rest, of st'] False mt show ?thesis
      unfolding step by simp
  next
    case True
    then obtain p where p: "tp = Some p" "p \<noteq> []" "fsys st p \<noteq> None"
      using r by (auto simp: merged_def split: option.splits)
    define st' where "st' = st\<lparr>success_count := success_count st + 1,
                  fsys := append_to (fsys st) out (read_all (fsys st) p),
                  all_chars := (if cv then all_chars st \<union> chars else all_chars st)\<rparr>"
    have step: "merge_results cv out (r # rs) st = merge_results cv out rs st'"
      using p r by (simp add: st'_def)
    have mt: "merged_text (fsys st) r = read_all (fsys st) p"
      using p r by (simp add: merged_text_def)
    have sel: "fsys st' = append_to (fsys st) out (read_all (fsys st) p)"
      "success_count st' = success_count st + 1"
      "failure_count st' = failure_count st"
      "all_chars st' = (if cv then all_chars st \<union> chars else all_chars st)"
      by (simp_all add: st'_def)
    have oth: "\<forall>q. q \<noteq> out \<longrightarrow> fsys st' q = fsys st q"
      by (simp add: sel append_to_other)
    note cg = merged_cong [OF rest oth]
    have ex: "fsys st' out \<noteq> None" by (simp add: sel append_to_def)
    note ih = Cons.IH [OF rest, of st', unfolded cg]
    from ih True mt ex show ?thesis
      unfolding step by (auto simp: sel append_to_twice r)
  qed
qed

lemma inside_temp_output: "inside td (temp_output td p r f)"
  by (simp add: inside_def temp_output_eq)

lemma temp_output_not_Nil: "temp_output td p r f \<noteq> []"
  using str_not_Nil [of p] by (simp add: temp_output_eq)

lemma process_file_effect:
  "process_file sh outfile p r (d, f, td) fs =
     ((if completes sh outfile d f
       then (Some (temp_output td p r f), set (decoded sh d f)) else (None, {})),
      (case written (1024 * 1024) (sh (join d f)) outfile of
         None \<Rightarrow> fs
       | Some c \<Rightarrow> fs(temp_output td p r f \<mapsto> c)))"
  unfolding process_file_def by (rule process_file_chunked_effect) simp

lemma executor_map_effect:
  assumes "distinct files" "valid_sched (length files) (sched R)"
  shows "\<exists>fs1. executor_map
                  (\<lambda>i. process_file sh (scratch R i) (fst (ids R i)) (snd (ids R i)))
                  (map (\<lambda>filename. (d, filename, temp_dir R)) files) (sched R) fs
               = (map (task_result sh R d files) [0..<length files], fs1)
           \<and> (\<forall>i<length files. succeeds sh R d files i \<longrightarrow>
                 fs1 (temp_output (temp_dir R) (fst (ids R i)) (snd (ids R i)) (files ! i))
                   = Some (decoded sh d (files ! i)))
           \<and> (\<forall>q. \<not> inside (temp_dir R) q \<longrightarrow> fs1 q = fs q)"
proof -
  define pth where "pth i = temp_output (temp_dir R) (fst (ids R i)) (snd (ids R i)) (files ! i)" for i
  define w where "w i = written (1024 * 1024) (sh (join d (files ! i))) (scratch R i)" for i
  define job where "job i = process_file sh (scratch R i) (fst (ids R i)) (snd (ids R i))
                      (map (\<lambda>filename. (d, filename, temp_dir R)) files ! i)" for i
  have so: "set (sched R) = {0..<length files}" and ds: "distinct (sched R)"
    using assms(2) by (simp_all add: valid_sched_def)
  have a1: "\<forall>i\<in>set (sched R). \<forall>fs. job i fs
              = (task_result sh R d files i, case w i of None \<Rightarrow> fs | Some c \<Rightarrow> fs(pth i \<mapsto> c))"
    unfolding job_def pth_def w_def using so
    by (simp add: process_file_effect task_result_def succeeds_def)
  have a3: "\<forall>i\<in>set (sched R). \<forall>j\<in>set (sched R). pth i = pth j \<longrightarrow> i = j"
  proof (intro ballI impI)
    fix i j assume "i \<in> set (sched R)" "j \<in> set (sched R)" "pth i = pth j"
    then have "i < length files" "j < length files" "files ! i = files ! j"
      using so temp_output_inj unfolding pth_def by auto
    with assms(1) show "i = j" by (simp add: nth_eq_iff_index_eq)
  qed
  from run_tasks_effect [OF a1 ds a3, of Map.empty fs]
  obtain fin' fs' where r: "run_tasks job (sched R) (Map.empty, fs) = (fin', fs')"
    and f: "\<forall>i. fin' i = (if i \<in> set (sched R) then Some (task_result sh R d files i) else None)"
    and s: "\<forall>i\<in>set (sched R). \<forall>c. w i = Some c \<longrightarrow> fs' (pth i) = Some c"
    and u: "\<forall>q. (\<forall>i\<in>set (sched R). pth i \<noteq> q) \<longrightarrow> fs' q = fs q"
    by auto
  have m: "map (\<lambda>i. the (fin' i)) [0..<length files] = map (task_result sh R d files) [0..<length files]"
    using f so by simp
  have 1: "executor_map (\<lambda>i. process_file sh (scratch R i) (fst (ids R i)) (snd (ids R i)))
                  (map (\<lambda>filename. (d, filename, temp_dir R)) files) (sched R) fs
               = (map (task_result sh R d files) [0..<length files], fs')"
    using r m unfolding executor_map_def job_def [symmetric] by simp
  have 2: "\<forall>i<length files. succeeds sh R d files i \<longrightarrow> fs' (pth i) = Some (decoded sh d (files ! i))"
  proof (intro allI impI)
    fix i assume i: "i < length files" and ok: "succeeds sh R d files i"
    from ok have "w i = Some (decoded sh d (files ! i))"
      unfolding w_def succeeds_def by (rule written_completes)
    with s i so show "fs' (pth i) = Some (decoded sh d (files ! i))" by simp
  qed
  have 3: "\<forall>q. \<not> inside (temp_dir R) q \<longrightarrow> fs' q = fs q"
  proof (intro allI impI)
    fix q assume "\<not> inside (temp_dir R) q"
    then have "\<forall>i\<in>set (sched R). pth i \<noteq> q"
      using inside_temp_output unfolding pth_def by auto
    with u show "fs' q = fs q" by simp
  qed
  from 1 2 3 show ?thesis unfolding pth_def by blast
qed

lemma concat_map_filter:
  "concat (map g (filter P xs)) = concat (map (\<lambda>x. if P x then g x else []) xs)"
  by (induction xs) simp_all

lemma decoded_not_intact: "\<not> intact sh d f \<Longrightarrow> decoded sh d f = []"
  by (auto simp: intact_def decoded_def split: shard.splits)

lemma in_temp_dir_effect:
  assumes "distinct files" "valid_sched (length files) (sched R)" "\<not> inside (temp_dir R) out"
  shows "\<exists>fs1. in_temp_dir sh R files d out cv fs =
           \<lparr>success_count = length (successful sh R d files),
            failure_count = length files - length (successful sh R d files),
            all_chars = (if cv then (\<Union>f\<in>set (successful sh R d files). set (decoded sh d f))
                         else {}),
            fsys = fs1(out \<mapsto> read_all fs out
                                @ concat (map (decoded sh d) (successful sh R d files)))\<rparr>
         \<and> (\<forall>i<length files. succeeds sh R d files i \<longrightarrow>
                 fs1 (temp_output (temp_dir R) (fst (ids R i)) (snd (ids R i)) (files ! i))
                   = Some (decoded sh d (files ! i)))
         \<and> (\<forall>q. \<not> inside (temp_dir R) q \<longrightarrow> fs1 q = fs q)"
proof -
  define n where "n = length files"
  define ok where "ok = succeeds sh R d files"
  define rs where "rs = map (task_result sh R d files) [0..<n]"
  define good where "good = successful sh R d files"
  have good: "good = map ((!) files) (filter ok [0..<n])"
    by (simp add: good_def successful_def ok_def n_def)
  from executor_map_effect [OF assms(1,2), of sh d fs]
  obtain fs1 where e: "executor_map
                  (\<lambda>i. process_file sh (scratch R i) (fst (ids R i)) (snd (ids R i)))
                  (map (\<lambda>filename. (d, filename, temp_dir R)) files) (sched R) fs = (rs, fs1)"
    and s: "\<forall>i<n. ok i \<longrightarrow>
                 fs1 (temp_output (temp_dir R) (fst (ids R i)) (snd (ids R i)) (files ! i))
                   = Some (decoded sh d (files ! i))"
    and u: "\<forall>q. \<not> inside (temp_dir R) q \<longrightarrow> fs1 q = fs q"
    unfolding rs_def n_def ok_def by blast
  define st0 where "st0 = \<lparr>success_count = 0, failure_count = 0, all_chars = {},
                 fsys = append_to fs1 out []\<rparr>"
  have itd: "in_temp_dir sh R files d out cv fs = merge_results cv out rs st0"
    using e by (simp add: in_temp_dir_def st0_def)
  have ne: "\<forall>r\<in>set rs. fst r \<noteq> Some out"
    using assms(3) inside_temp_output by (auto simp: rs_def task_result_def)
  have f0: "fsys st0 = append_to fs1 out []" by (simp add: st0_def)
  have ro: "read_all fs1 out = read_all fs out" using u assms(3) by (simp add: read_all_def)
  have tr: "task_result sh R d files i =
              (if ok i then (Some (temp_output (temp_dir R) (fst (ids R i)) (snd (ids R i)) (files ! i)),
                             set (decoded sh d (files ! i)))
               else (None, {}))" for i
    by (simp add: task_result_def ok_def)
  have k: "\<forall>i<n. merged (fsys st0) (task_result sh R d files i) = ok i
              \<and> merged_text (fsys st0) (task_result sh R d files i)
                  = (if ok i then decoded sh d (files ! i) else [])"
  proof (intro allI impI)
    fix i assume i: "i < n"
    show "merged (fsys st0) (task_result sh R d files i) = ok i
              \<and> merged_text (fsys st0) (task_result sh R d files i)
                  = (if ok i then decoded sh d (files ! i) else [])"
    proof (cases "ok i")
      case True
      let ?p = "temp_output (temp_dir R) (fst (ids R i)) (snd (ids R i)) (files ! i)"
      have "?p \<noteq> out" using assms(3) inside_temp_output by auto
      then have "fsys st0 ?p = Some (decoded sh d (files ! i))"
        using s i True by (simp add: f0 append_to_other)
      then show ?thesis using True temp_output_not_Nil
        by (simp add: merged_def merged_text_def tr read_all_def)
    next
      case False
      then show ?thesis by (simp add: merged_def merged_text_def tr)
    qed
  qed
  have mt: "map (merged_text (fsys st0)) rs
              = map (\<lambda>i. if ok i then decoded sh d (files ! i) else []) [0..<n]"
    using k by (simp add: rs_def)
  have ct: "concat (map (merged_text (fsys st0)) rs) = concat (map (decoded sh d) good)"
  proof -
    have "concat (map (decoded sh d) good)
            = concat (map (\<lambda>i. decoded sh d (files ! i)) (filter ok [0..<n]))"
      by (simp add: good comp_def)
    also have "\<dots> = concat (map (\<lambda>i. if ok i then decoded sh d (files ! i) else []) [0..<n])"
      by (rule concat_map_filter)
    finally show ?thesis by (simp add: mt)
  qed
  have fi: "filter (\<lambda>i. merged (fsys st0) (task_result sh R d files i)) [0..<n]
              = filter ok [0..<n]"
    by (rule filter_cong) (use k in auto)
  have fn: "filter (\<lambda>i. \<not> merged (fsys st0) (task_result sh R d files i)) [0..<n]
              = filter (\<lambda>i. \<not> ok i) [0..<n]"
    by (rule filter_cong) (use k in auto)
  have fl: "filter (merged (fsys st0)) rs = map (task_result sh R d files) (filter ok [0..<n])"
    unfolding rs_def filter_map comp_def fi ..
  have fl2: "filter (\<lambda>r. \<not> merged (fsys st0) r) rs
              = map (task_result sh R d files) (filter (\<lambda>i. \<not> ok i) [0..<n])"
    unfolding rs_def filter_map comp_def fn ..
  have lsc: "length (filter (merged (fsys st0)) rs) = length good"
    by (simp add: fl good)
  have lfc: "length (filter (\<lambda>r. \<not> merged (fsys st0) r) rs) = n - length good"
    using sum_length_filter_compl [of ok "[0..<n]"] by (simp add: fl2 good)
  have un: "\<Union> (snd ` set (filter (merged (fsys st0)) rs))
              = (\<Union>f\<in>set good. set (decoded sh d f))"
    unfolding fl good by (auto simp: tr)
  have sel0: "success_count st0 = 0" "failure_count st0 = 0" "all_chars st0 = {}"
    by (simp_all add: st0_def)
  have ex0: "fsys st0 out \<noteq> None" by (simp add: f0 append_to_def)
  note mre = merge_results_effect [OF ne, of cv st0, unfolded lsc lfc un ct sel0]
  have sc: "success_count (merge_results cv out rs st0) = length good"
    using mre by simp
  have fc: "failure_count (merge_results cv out rs st0) = n - length good"
    using mre by simp
  have ac: "all_chars (merge_results cv out rs st0)
              = (if cv then (\<Union>f\<in>set good. set (decoded sh d f)) else {})"
    using mre by simp
  have fy: "fsys (merge_results cv out rs st0)
              = append_to (fsys st0) out (concat (map (decoded sh d) good))"
    using mre ex0 by blast
  have fy': "fsys (merge_results cv out rs st0)
               = fs1(out \<mapsto> read_all fs out @ concat (map (decoded sh d) good))"
    unfolding fy f0 append_to_twice by (simp add: append_to_def ro)
  have "merge_results cv out rs st0 =
           \<lparr>success_count = length good,
            failure_count = n - length good,
            all_chars = (if cv then (\<Union>f\<in>set good. set (decoded sh d f)) else {}),
            fsys = fs1(out \<mapsto> read_all fs out @ concat (map (decoded sh d) good))\<rparr>"
    using sc fc ac fy' by (cases "merge_results cv out rs st0") simp
  with itd s u show ?thesis unfolding n_def good_def ok_def by auto
qed

lemma process_files_in_parallel_effect:
  assumes "distinct files" "valid_sched (length files) (sched R)" "\<not> inside (temp_dir R) out"
  shows "process_files_in_parallel sh R files d out cv fs =
           ((if cv then Some (\<Union>f\<in>set (successful sh R d files). set (decoded sh d f)) else None,
             length (successful sh R d files),
             length files - length (successful sh R d files)),
            rmtree (temp_dir R)
              (fs(out \<mapsto> read_all fs out
                          @ concat (map (decoded sh d) (successful sh R d files)))))"
proof -
  define good where "good = successful sh R d files"
  from in_temp_dir_effect [OF assms, of sh d cv fs]
  obtain fs1 where e: "in_temp_dir sh R files d out cv fs =
           \<lparr>success_count = length good,
            failure_count = length files - length good,
            all_chars = (if cv then (\<Union>f\<in>set good. set (decoded sh d f)) else {}),
            fsys = fs1(out \<mapsto> read_all fs out @ concat (map (decoded sh d) good))\<rparr>"
    and u: "\<forall>q. \<not> inside (temp_dir R) q \<longrightarrow> fs1 q = fs q"
    unfolding good_def by blast
  have "rmtree (temp_dir R) (fs1(out \<mapsto> read_all fs out @ concat (map (decoded sh d) good)))
      = rmtree (temp_dir R) (fs(out \<mapsto> read_all fs out @ concat (map (decoded sh d) good)))"
    using u by (auto simp: rmtree_def fun_eq_iff)
  then show ?thesis
    unfolding good_def [symmetric] by (simp add: process_files_in_parallel_def e)
qed

subsection \<open>Runs: order of the merge, failures, scratch files\<close>

lemma rmtree_outside: "\<not> inside d q \<Longrightarrow> rmtree d fs q = fs q"
  by (simp add: rmtree_def)

lemma rmtree_inside: "inside d q \<Longrightarrow> rmtree d fs q = None"
  by (simp add: rmtree_def)

text \<open>
  Claim C1. For a run over distinct file names, whatever order the pool completes the
  tasks in, the output file after the run holds what it held before followed by the decoded
  texts of the shards whose tasks succeeded, in the order of submission. The text does not
  depend on the schedule, the process ids, the random draws or the temporary directory, so
  a second run on the same list in which the same shards succeed appends the same text.
\<close>

theorem merge_in_submission_order:
  assumes "distinct files"
    and "valid_sched (length files) (sched R)" and "\<not> inside (temp_dir R) out"
    and "valid_sched (length files) (sched R')" and "\<not> inside (temp_dir R') out"
  shows "snd (process_files_in_parallel sh R files d out cv fs) out
           = Some (read_all fs out @ concat (map (decoded sh d) (successful sh R d files)))
       \<and> (successful sh R' d files = successful sh R d files \<longrightarrow>
            snd (process_files_in_parallel sh R' files d out cv fs) out
              = snd (process_files_in_parallel sh R files d out cv fs) out)"
  using assms
  by (simp add: process_files_in_parallel_effect rmtree_outside)

lemma run0_valid: "valid_sched (length [''a.xz'', ''b.xz'']) (sched run0)"
  by (auto simp: valid_sched_def run0_def)

lemma run1_valid: "valid_sched (length [''a.xz'', ''b.xz'']) (sched run1)"
  by (auto simp: valid_sched_def run1_def)

lemma run0_outside: "\<not> inside (temp_dir run0) ''output_train.txt''"
  by (simp add: inside_def dir_prefix_def run0_def)

lemma run1_outside: "\<not> inside (temp_dir run1) ''output_train.txt''"
  by (simp add: inside_def dir_prefix_def run1_def)

lemma sh0_decoded:
  "decoded sh0 ''openwebtext'' ''a.xz'' = [104, 105]"
  "decoded sh0 ''openwebtext'' ''b.xz'' = [121, 111]"
  "decoded sh0 ''openwebtext'' ''c.xz'' = []"
  "intact sh0 ''openwebtext'' ''a.xz''"
  "intact sh0 ''openwebtext'' ''b.xz''"
  "\<not> intact sh0 ''openwebtext'' ''c.xz''"
  by (simp_all add: decoded_def intact_def join_def sh0_def)

lemma successful_two:
  "successful sh R d [a, b]
     = (if succeeds sh R d [a, b] 0 then [a] else [])
       @ (if succeeds sh R d [a, b] (Suc 0) then [b] else [])"
  by (simp add: successful_def)

lemma successful_three:
  "successful sh R d [a, b, c]
     = (if succeeds sh R d [a, b, c] 0 then [a] else [])
       @ (if succeeds sh R d [a, b, c] (Suc 0) then [b] else [])
       @ (if succeeds sh R d [a, b, c] (Suc (Suc 0)) then [c] else [])"
  by (simp add: successful_def)

lemma successful_run0:
  "successful sh0 run0 ''openwebtext'' [''a.xz'', ''b.xz''] = [''a.xz'', ''b.xz'']"
  by (simp add: successful_two succeeds_def completes_def takes_def sh0_decoded run0_def)

lemma successful_run1:
  "successful sh0 run1 ''openwebtext'' [''a.xz'', ''b.xz''] = [''a.xz'', ''b.xz'']"
  by (simp add: successful_two succeeds_def completes_def takes_def sh0_decoded run1_def)

theorem merge_in_submission_order_witness:
  "snd (process_files_in_parallel sh0 run0 [''a.xz'', ''b.xz''] ''openwebtext''
          ''output_train.txt'' True Map.empty) ''output_train.txt''
     = Some [104, 105, 121, 111]
   \<and> snd (process_files_in_parallel sh0 run1 [''a.xz'', ''b.xz''] ''openwebtext''
          ''output_train.txt'' True Map.empty) ''output_train.txt''
     = Some [104, 105, 121, 111]"
proof -
  have d: "distinct [''a.xz'', ''b.xz'']" by simp
  from merge_in_submission_order [OF d run0_valid run0_outside run1_valid run1_outside,
      of sh0 "''openwebtext''" True Map.empty]
  show ?thesis by (simp add: successful_run0 successful_run1 sh0_decoded read_all_def)
qed

lemma try_body_error:
  assumes "0 < n"
  shows "(\<exists>e. fst (try_body n sh outfile p r (d, f, td) fs) = Inl e)
           = (\<not> completes sh outfile d f)"
proof -
  obtain x fs' where t: "try_body n sh outfile p r (d, f, td) fs = (x, fs')"
    by (cases "try_body n sh outfile p r (d, f, td) fs")
  note e = process_file_chunked_effect [OF assms, of sh outfile p r d f td fs]
  show ?thesis
  proof (cases x)
    case (Inl err)
    with t have "fst (process_file_chunked n sh outfile p r (d, f, td) fs) = (None, {})"
      by (simp add: process_file_chunked_def)
    with e have "\<not> completes sh outfile d f" by (auto split: if_splits)
    with t Inl show ?thesis by simp
  next
    case (Inr v)
    obtain tp cs where v: "v = (tp, cs)" by (cases v)
    with t Inr have "fst (process_file_chunked n sh outfile p r (d, f, td) fs) = (Some tp, cs)"
      by (simp add: process_file_chunked_def)
    with e have "completes sh outfile d f" by (auto split: if_splits)
    with t Inr show ?thesis by simp
  qed
qed

lemma count_failures:
  "length (filter (\<lambda>i. \<not> succeeds sh R d files i) [0..<length files])
     = length files - length (successful sh R d files)"
  using sum_length_filter_compl [of "succeeds sh R d files" "[0..<length files]"]
  by (simp add: successful_def)

lemma length_successful: "length (successful sh R d files) \<le> length files"
  using length_filter_le [of "succeeds sh R d files" "[0..<length files]"]
  by (simp add: successful_def)

text \<open>
  Claim C3. A run of \<open>N\<close> shards of which \<open>K\<close> fail, by a decode error or by an I/O
  error on the scratch file, returns: it reports \<open>N - K\<close> successes and \<open>K\<close> failures,
  and the output file receives the decoded texts of the \<open>N - K\<close> shards that succeeded,
  in the order of submission. The worker turns every shard whose processing does not
  complete into the failure value \<^verbatim>\<open>(None, set())\<close>, and these are the shards for which
  the \<^verbatim>\<open>try\<close> block raises.
\<close>

theorem failure_isolation:
  assumes "distinct files"
    and "valid_sched (length files) (sched R)" and "\<not> inside (temp_dir R) out"
    and "K = length (filter (\<lambda>i. \<not> succeeds sh R d files i) [0..<length files])"
  shows "process_files_in_parallel sh R files d out cv fs =
           ((if cv then Some (\<Union>f\<in>set (successful sh R d files). set (decoded sh d f)) else None,
             length files - K, K),
            rmtree (temp_dir R)
              (fs(out \<mapsto> read_all fs out
                          @ concat (map (decoded sh d) (successful sh R d files)))))
       \<and> (\<forall>f outfile p r fs'. \<not> completes sh outfile d f \<longrightarrow>
             fst (process_file sh outfile p r (d, f, temp_dir R) fs') = (None, {}))
       \<and> (\<forall>f outfile p r fs'.
             (\<exists>e. fst (try_body (1024 * 1024) sh outfile p r (d, f, temp_dir R) fs') = Inl e)
               = (\<not> completes sh outfile d f))"
proof -
  have k: "K = length files - length (successful sh R d files)"
    unfolding assms(4) by (rule count_failures)
  have c: "length files - K = length (successful sh R d files)"
    using length_successful [of sh R d files] by (simp add: k)
  have 1: "process_files_in_parallel sh R files d out cv fs =
           ((if cv then Some (\<Union>f\<in>set (successful sh R d files). set (decoded sh d f)) else None,
             length files - K, K),
            rmtree (temp_dir R)
              (fs(out \<mapsto> read_all fs out
                          @ concat (map (decoded sh d) (successful sh R d files)))))"
    unfolding c unfolding k
    by (rule process_files_in_parallel_effect [OF assms(1-3)])
  have 2: "fst (process_file sh outfile p r (d, f, temp_dir R) fs') = (None, {})"
    if "\<not> completes sh outfile d f" for f outfile p r fs'
    using that by (simp add: process_file_effect)
  have 3: "(\<exists>e. fst (try_body (1024 * 1024) sh outfile p r (d, f, temp_dir R) fs') = Inl e)
             = (\<not> completes sh outfile d f)" for f outfile p r fs'
    by (rule try_body_error) simp
  from 1 2 3 show ?thesis by blast
qed

lemma run2_valid: "valid_sched (length [''a.xz'', ''c.xz'', ''b.xz'']) (sched run2)"
  by (auto simp: valid_sched_def run2_def)

lemma run2_outside: "\<not> inside (temp_dir run2) ''output_train.txt''"
  by (simp add: inside_def dir_prefix_def run2_def)

lemma succeeds_run2:
  "succeeds sh0 run2 ''openwebtext'' [''a.xz'', ''c.xz'', ''b.xz''] 0"
  "\<not> succeeds sh0 run2 ''openwebtext'' [''a.xz'', ''c.xz'', ''b.xz''] (Suc 0)"
  "\<not> succeeds sh0 run2 ''openwebtext'' [''a.xz'', ''c.xz'', ''b.xz''] (Suc (Suc 0))"
  by (simp_all add: succeeds_def completes_def takes_def sh0_decoded run2_def)

lemma successful_run2:
  "successful sh0 run2 ''openwebtext'' [''a.xz'', ''c.xz'', ''b.xz''] = [''a.xz'']"
  by (simp add: successful_three succeeds_run2)

theorem failure_isolation_witness:
  "process_files_in_parallel sh0 run2 [''a.xz'', ''c.xz'', ''b.xz'']
       ''openwebtext'' ''output_train.txt'' True Map.empty
     = ((Some {104, 105}, 1, 2), rmtree ''/tmp/t'' [''output_train.txt'' \<mapsto> [104, 105]])
   \<and> fst (process_file sh0 (Room 4096) 7 1234 (''openwebtext'', ''c.xz'', ''/tmp/t'') Map.empty)
       = (None, {})
   \<and> fst (process_file sh0 CannotOpen 7 1234 (''openwebtext'', ''b.xz'', ''/tmp/t'') Map.empty)
       = (None, {})"
proof -
  have d: "distinct [''a.xz'', ''c.xz'', ''b.xz'']" by simp
  have k: "(2::nat) = length (filter
             (\<lambda>i. \<not> succeeds sh0 run2 ''openwebtext'' [''a.xz'', ''c.xz'', ''b.xz''] i)
             [0..<length [''a.xz'', ''c.xz'', ''b.xz'']])"
    by (simp add: succeeds_run2)
  have t: "temp_dir run2 = ''/tmp/t''" by (simp add: run2_def)
  have c: "\<not> completes sh0 (Room 4096) ''openwebtext'' ''c.xz''"
    by (simp add: completes_def sh0_decoded)
  have b: "\<not> completes sh0 CannotOpen ''openwebtext'' ''b.xz''"
    by (simp add: completes_def takes_def)
  note fi = failure_isolation [OF d run2_valid run2_outside k, of True Map.empty]
  from fi [THEN conjunct1]
    fi [THEN conjunct2, THEN conjunct1, rule_format, OF c, of 7 1234 Map.empty]
    fi [THEN conjunct2, THEN conjunct1, rule_format, OF b, of 7 1234 Map.empty]
  show ?thesis by (simp add: successful_run2 sh0_decoded read_all_def t)
qed

text \<open>
  Claim C7, as stated, fails: the merge loop copies a scratch file and does not delete it.
  After the merge of the run \<open>run0\<close> over \<open>a.xz\<close> and \<open>b.xz\<close>, before the temporary
  directory is removed, the scratch file of \<open>a.xz\<close> is still there with its text.
\<close>

theorem scratch_file_survives_merge:
  "fsys (in_temp_dir sh0 run0 [''a.xz'', ''b.xz''] ''openwebtext'' ''output_train.txt'' True
           Map.empty) ''/tmp/t/7_1234_a.xz.txt'' = Some [104, 105]"
proof -
  have d: "distinct [''a.xz'', ''b.xz'']" by simp
  from in_temp_dir_effect [OF d run0_valid run0_outside, of sh0 "''openwebtext''" True Map.empty]
  obtain fs1 where e: "fsys (in_temp_dir sh0 run0 [''a.xz'', ''b.xz''] ''openwebtext''
                              ''output_train.txt'' True Map.empty)
        = fs1(''output_train.txt'' \<mapsto> read_all Map.empty ''output_train.txt''
                 @ concat (map (decoded sh0 ''openwebtext'')
                             (successful sh0 run0 ''openwebtext'' [''a.xz'', ''b.xz''])))"
    and s: "\<forall>i<length [''a.xz'', ''b.xz''].
              succeeds sh0 run0 ''openwebtext'' [''a.xz'', ''b.xz''] i \<longrightarrow>
              fs1 (temp_output (temp_dir run0) (fst (ids run0 i)) (snd (ids run0 i))
                     ([''a.xz'', ''b.xz''] ! i))
                = Some (decoded sh0 ''openwebtext'' ([''a.xz'', ''b.xz''] ! i))"
    by force
  have p: "temp_output (temp_dir run0) (fst (ids run0 0)) (snd (ids run0 0)) ''a.xz''
             = ''/tmp/t/7_1234_a.xz.txt''"
    by (simp add: run0_def temp_output_def join_def unique_id_def str.simps digit_def)
  have ok: "succeeds sh0 run0 ''openwebtext'' [''a.xz'', ''b.xz''] 0"
    by (simp add: succeeds_def completes_def takes_def sh0_decoded run0_def)
  from s [rule_format, of 0] ok have "fs1 ''/tmp/t/7_1234_a.xz.txt'' = Some [104, 105]"
    by (simp add: sh0_decoded p)
  then show ?thesis by (simp add: e)
qed

text \<open>
  Claim C7, amended. The merge leaves the scratch file of every task that succeeded in
  place, holding the decoded text, until the temporary directory is removed; once the run
  has returned, no file is left below the temporary directory.
\<close>

theorem scratch_cleanup:
  assumes "distinct files"
    and "valid_sched (length files) (sched R)" and "\<not> inside (temp_dir R) out"
  shows "(\<forall>i<length files. succeeds sh R d files i \<longrightarrow>
            fsys (in_temp_dir sh R files d out cv fs)
              (temp_output (temp_dir R) (fst (ids R i)) (snd (ids R i)) (files ! i))
              = Some (decoded sh d (files ! i)))
       \<and> (\<forall>q. inside (temp_dir R) q \<longrightarrow>
            snd (process_files_in_parallel sh R files d out cv fs) q = None)"
proof -
  from in_temp_dir_effect [OF assms, of sh d cv fs]
  obtain fs1 where e: "fsys (in_temp_dir sh R files d out cv fs)
        = fs1(out \<mapsto> read_all fs out @ concat (map (decoded sh d) (successful sh R d files)))"
    and s: "\<forall>i<length files. succeeds sh R d files i \<longrightarrow>
              fs1 (temp_output (temp_dir R) (fst (ids R i)) (snd (ids R i)) (files ! i))
                = Some (decoded sh d (files ! i))"
    by force
  have ne: "temp_output (temp_dir R) p r f \<noteq> out" for p r f
    using assms(3) inside_temp_output by auto
  show ?thesis
    using s by (simp add: e ne process_files_in_parallel_def Let_def rmtree_inside)
qed

theorem scratch_cleanup_witness:
  "fsys (in_temp_dir sh0 run0 [''a.xz'', ''b.xz''] ''openwebtext'' ''output_train.txt'' True
           Map.empty) ''/tmp/t/7_1234_b.xz.txt'' = Some [121, 111]
   \<and> snd (process_files_in_parallel sh0 run0 [''a.xz'', ''b.xz''] ''openwebtext''
            ''output_train.txt'' True Map.empty) ''/tmp/t/7_1234_b.xz.txt'' = None"
proof -
  have d: "distinct [''a.xz'', ''b.xz'']" by simp
  have p: "temp_output (temp_dir run0) (fst (ids run0 (Suc 0))) (snd (ids run0 (Suc 0))) ''b.xz''
             = ''/tmp/t/7_1234_b.xz.txt''"
    by (simp add: run0_def temp_output_def join_def unique_id_def str.simps digit_def)
  have i: "inside (temp_dir run0) ''/tmp/t/7_1234_b.xz.txt''"
    by (simp add: inside_def dir_prefix_def run0_def)
  have ok: "succeeds sh0 run0 ''openwebtext'' [''a.xz'', ''b.xz''] (Suc 0)"
    by (simp add: succeeds_def completes_def takes_def sh0_decoded run0_def)
  from scratch_cleanup [OF d run0_valid run0_outside, of sh0 "''openwebtext''" True Map.empty]
  have a: "\<forall>i<length [''a.xz'', ''b.xz''].
            succeeds sh0 run0 ''openwebtext'' [''a.xz'', ''b.xz''] i \<longrightarrow>
            fsys (in_temp_dir sh0 run0 [''a.xz'', ''b.xz''] ''openwebtext'' ''output_train.txt'' True Map.empty)
              (temp_output (temp_dir run0) (fst (ids run0 i)) (snd (ids run0 i)) ([''a.xz'', ''b.xz''] ! i))
              = Some (decoded sh0 ''openwebtext'' ([''a.xz'', ''b.xz''] ! i))"
    and b: "\<forall>q. inside (temp_dir run0) q \<longrightarrow>
            snd (process_files_in_parallel sh0 run0 [''a.xz'', ''b.xz''] ''openwebtext''
                  ''output_train.txt'' True Map.empty) q = None"
    by blast+
  from a [rule_format, of "Suc 0"] ok b [rule_format, OF i] show ?thesis
    by (simp add: sh0_decoded p)
qed

subsection \<open>A failing shard\<close>

lemma str_7: "str 7 = ''7''" by (simp add: str.simps digit_def)
lemma str_1234: "str 1234 = ''1234''" by (simp add: str.simps digit_def)

lemma scratch_a: "temp_output ''/tmp/t'' 7 1234 ''a.xz'' = ''/tmp/t/7_1234_a.xz.txt''"
  by (simp add: temp_output_def join_def unique_id_def str_7 str_1234)

lemma written_broken_shard:
  "written (1024 * 1024) (broken_shard p) (Room 2000000) = Some (replicate (1024 * 1024) 97)"
  by (simp add: written_def delivered_def broken_shard_def)

text \<open>
  Claim C6, as stated, fails: the handler of \<^verbatim>\<open>process_file\<close> removes nothing. On a
  shard that breaks after its first chunk the call returns \<^verbatim>\<open>(None, set())\<close>, a value
  that carries no reason, and the scratch file stays behind with the chunk that was
  written.
\<close>

theorem partial_scratch_file_left_behind:
  "process_file broken_shard (Room 2000000) 7 1234 (''openwebtext'', ''a.xz'', ''/tmp/t'')
       Map.empty
     = ((None, {}), [''/tmp/t/7_1234_a.xz.txt'' \<mapsto> replicate (1024 * 1024) 97])"
proof -
  have n: "\<not> completes broken_shard (Room 2000000) ''openwebtext'' ''a.xz''"
    by (simp add: completes_def intact_def broken_shard_def)
  show ?thesis
    unfolding process_file_effect written_broken_shard scratch_a using n by simp
qed

text \<open>
  Claim C6, amended. For a shard whose processing hits a decode error or an I/O error,
  \<^verbatim>\<open>process_file\<close> returns the failure value \<^verbatim>\<open>(None, set())\<close> (the reason is logged
  and printed only) and removes nothing: it changes no file other than the scratch file of
  that shard, and that file, once opened, stays in place with the part of the text that
  was written to it. The value that any call of the worker returns does not depend on the
  files it finds, so no sibling shard is affected.
\<close>

theorem shard_failure_contained:
  assumes "\<not> completes sh outfile d f"
  shows "fst (process_file sh outfile p r (d, f, td) fs) = (None, {})
       \<and> snd (process_file sh outfile p r (d, f, td) fs)
           = (case written (1024 * 1024) (sh (join d f)) outfile of
                None \<Rightarrow> fs
              | Some c \<Rightarrow> fs(temp_output td p r f \<mapsto> c))
       \<and> (\<forall>p' r' a outfile' fs1 fs2.
             fst (process_file sh outfile' p' r' a fs1) = fst (process_file sh outfile' p' r' a fs2))"
proof -
  have ind: "fst (process_file sh outfile' p' r' a fs1) = fst (process_file sh outfile' p' r' a fs2)"
    for p' r' a outfile' fs1 fs2
  proof -
    obtain d' f' td' where a: "a = (d', f', td')" by (cases a)
    show ?thesis unfolding a by (simp add: process_file_effect)
  qed
  show ?thesis using assms ind by (simp add: process_file_effect)
qed

theorem shard_failure_contained_witness:
  "process_file broken_shard (Room 2000000) 7 1234 (''openwebtext'', ''a.xz'', ''/tmp/t'')
       [''output_train.txt'' \<mapsto> [120]]
     = ((None, {}), [''output_train.txt'' \<mapsto> [120],
                     ''/tmp/t/7_1234_a.xz.txt'' \<mapsto> replicate (1024 * 1024) 97])
   \<and> process_file sh0 CannotOpen 7 1234 (''openwebtext'', ''a.xz'', ''/tmp/t'')
       [''output_train.txt'' \<mapsto> [120]]
     = ((None, {}), [''output_train.txt'' \<mapsto> [120]])
   \<and> process_file sh0 (Room 1) 7 1234 (''openwebtext'', ''a.xz'', ''/tmp/t'')
       [''output_train.txt'' \<mapsto> [120]]
     = ((None, {}), [''output_train.txt'' \<mapsto> [120], ''/tmp/t/7_1234_a.xz.txt'' \<mapsto> [104]])"
proof -
  have n1: "\<not> completes broken_shard (Room 2000000) ''openwebtext'' ''a.xz''"
    by (simp add: completes_def intact_def broken_shard_def)
  have n2: "\<not> completes sh0 CannotOpen ''openwebtext'' ''a.xz''"
    by (simp add: completes_def takes_def)
  have n3: "\<not> completes sh0 (Room 1) ''openwebtext'' ''a.xz''"
    by (simp add: completes_def takes_def sh0_decoded)
  have w2: "written (1024 * 1024) (sh0 (join ''openwebtext'' ''a.xz'')) CannotOpen = None"
    by (simp add: written_def join_def sh0_def)
  have w3: "written (1024 * 1024) (sh0 (join ''openwebtext'' ''a.xz'')) (Room 1) = Some [104]"
    by (simp add: written_def delivered_def join_def sh0_def)
  note a = shard_failure_contained [OF n1, of 7 1234 "''/tmp/t''" "[''output_train.txt'' \<mapsto> [120]]"]
  note b = shard_failure_contained [OF n2, of 7 1234 "''/tmp/t''" "[''output_train.txt'' \<mapsto> [120]]"]
  note c = shard_failure_contained [OF n3, of 7 1234 "''/tmp/t''" "[''output_train.txt'' \<mapsto> [120]]"]
  have 1: "process_file broken_shard (Room 2000000) 7 1234 (''openwebtext'', ''a.xz'', ''/tmp/t'')
       [''output_train.txt'' \<mapsto> [120]]
     = ((None, {}), [''output_train.txt'' \<mapsto> [120],
                     ''/tmp/t/7_1234_a.xz.txt'' \<mapsto> replicate (1024 * 1024) 97])"
    using a [THEN conjunct1] a [THEN conjunct2, THEN conjunct1]
    unfolding written_broken_shard scratch_a by (simp add: prod_eq_iff)
  have 2: "process_file sh0 CannotOpen 7 1234 (''openwebtext'', ''a.xz'', ''/tmp/t'')
       [''output_train.txt'' \<mapsto> [120]]
     = ((None, {}), [''output_train.txt'' \<mapsto> [120]])"
    using b [THEN conjunct1] b [THEN conjunct2, THEN conjunct1]
    unfolding w2 by (simp add: prod_eq_iff)
  have 3: "process_file sh0 (Room 1) 7 1234 (''openwebtext'', ''a.xz'', ''/tmp/t'')
       [''output_train.txt'' \<mapsto> [120]]
     = ((None, {}), [''output_train.txt'' \<mapsto> [120], ''/tmp/t/7_1234_a.xz.txt'' \<mapsto> [104]])"
    using c [THEN conjunct1] c [THEN conjunct2, THEN conjunct1]
    unfolding w3 scratch_a by (simp add: prod_eq_iff)
  from 1 2 3 show ?thesis by blast
qed

subsection \<open>Split and sample\<close>

lemma split_bounds: "2 \<le> (n::nat) \<Longrightarrow> 1 \<le> n * 9 div 10 \<and> n * 9 div 10 < n"
  by arith

lemma sample_size_le: "1 \<le> n \<Longrightarrow> sample_size n \<le> n"
  by (simp add: sample_size_def)

lemma sample_size_pos: "1 \<le> sample_size n"
  by (simp add: sample_size_def)

lemma length_parts:
  assumes "2 \<le> length files"
  shows "1 \<le> length (files_train files)" "1 \<le> length (files_val files)"
  using split_bounds [OF assms] by (auto simp: files_train_def files_val_def)

lemma split_and_sample_eq:
  assumes "2 \<le> length files"
  shows "split_and_sample files pt pv
           = Inr (map ((!) (files_train files)) pt, map ((!) (files_val files)) pv)"
proof -
  have a: "\<not> length (files_train files) < sample_size (length (files_train files))"
    using sample_size_le [OF length_parts(1) [OF assms]] by simp
  have b: "\<not> length (files_val files) < sample_size (length (files_val files))"
    using sample_size_le [OF length_parts(2) [OF assms]] by simp
  show ?thesis
    using a b
    by (simp add: split_and_sample_def sample_def Let_def files_train_def files_val_def)
qed

lemma sampled_distinct:
  assumes "distinct xs" "valid_picks (length xs) k picks"
  shows "distinct (map ((!) xs) picks)"
proof -
  have "\<forall>i\<in>set picks. i < length xs"
    using assms(2) by (simp add: valid_picks_def list_all_iff)
  then have "inj_on ((!) xs) (set picks)"
    using assms(1) by (simp add: inj_on_nth)
  moreover have "distinct picks" using assms(2) by (simp add: valid_picks_def)
  ultimately show ?thesis by (simp add: distinct_map)
qed

lemma sampled_subset:
  assumes "valid_picks (length xs) k picks"
  shows "set (map ((!) xs) picks) \<subseteq> set xs"
  using assms by (auto simp: valid_picks_def list_all_iff)

lemma length_files223: "length files223 = 223" by (simp add: files223_def)

lemma nth_files223: "i < 223 \<Longrightarrow> files223 ! i = str i @ ''.xz''"
  by (simp add: files223_def)

lemma str_small: "str 0 = ''0''" "str 1 = ''1''" "str (Suc 0) = ''1''" "str 200 = ''200''"
  by (simp_all add: str.simps digit_def)

text \<open>
  Claim C4, as stated, fails. For a list of one shard the training part is empty and
  \<^verbatim>\<open>random.sample\<close> is asked for one element of it: \<^verbatim>\<open>ValueError\<close>. And the sampled
  lists are in the order of the draws, not in the order of the discovered list: with 223
  shards the training part has 200, two are drawn, and the draw of position 1 before
  position 0 puts \<open>1.xz\<close> before \<open>0.xz\<close>.
\<close>

theorem split_and_sample_fails_or_reorders:
  "split_and_sample [''a.xz''] [] [0] = Inl ValueError
   \<and> split_and_sample files223 [1, 0] [0] = Inr ([''1.xz'', ''0.xz''], [''200.xz''])
   \<and> files223 ! 0 = ''0.xz'' \<and> files223 ! 1 = ''1.xz''"
proof -
  have 1: "split_and_sample [''a.xz''] [] [0] = Inl ValueError"
    by (simp add: split_and_sample_def sample_def sample_size_def Let_def)
  have l: "2 \<le> length files223" by (simp add: length_files223)
  have ft: "files_train files223 = take 200 files223"
    by (simp add: files_train_def length_files223)
  have fv: "files_val files223 = drop 200 files223"
    by (simp add: files_val_def length_files223)
  have 2: "split_and_sample files223 [1, 0] [0] = Inr ([''1.xz'', ''0.xz''], [''200.xz''])"
    unfolding split_and_sample_eq [OF l] ft fv
    by (simp add: length_files223 nth_files223 str_small)
  show ?thesis using 1 2 by (simp add: nth_files223 str_small)
qed

text \<open>
  Claim C4, amended. For a discovered list of at least two shards the step returns two
  lists, neither empty: the elements of the training part and of the validation part at
  the positions that the sampler drew, unchanged, in the order of the draws. The two parts
  are the discovered list cut at \<open>split_index\<close>.
\<close>

theorem split_and_sample_subsets:
  assumes "2 \<le> length files"
    and "valid_picks (length (files_train files)) (sample_size (length (files_train files))) picks_t"
    and "valid_picks (length (files_val files)) (sample_size (length (files_val files))) picks_v"
  shows "split_and_sample files picks_t picks_v
           = Inr (map ((!) (files_train files)) picks_t, map ((!) (files_val files)) picks_v)
       \<and> picks_t \<noteq> [] \<and> picks_v \<noteq> []
       \<and> set (map ((!) (files_train files)) picks_t) \<subseteq> set (files_train files)
       \<and> set (map ((!) (files_val files)) picks_v) \<subseteq> set (files_val files)
       \<and> files_train files @ files_val files = files"
proof -
  have t: "picks_t \<noteq> []"
    using assms(2) sample_size_pos [of "length (files_train files)"]
    by (auto simp: valid_picks_def)
  have v: "picks_v \<noteq> []"
    using assms(3) sample_size_pos [of "length (files_val files)"]
    by (auto simp: valid_picks_def)
  have c: "files_train files @ files_val files = files"
    by (simp add: files_train_def files_val_def)
  show ?thesis
    using split_and_sample_eq [OF assms(1)] t v c sampled_subset [OF assms(2)]
      sampled_subset [OF assms(3)]
    by simp
qed

theorem split_and_sample_subsets_witness:
  "split_and_sample [''a.xz'', ''b.xz''] [0] [0] = Inr ([''a.xz''], [''b.xz''])"
proof -
  have l: "2 \<le> length [''a.xz'', ''b.xz'']" by simp
  have t: "valid_picks (length (files_train [''a.xz'', ''b.xz'']))
             (sample_size (length (files_train [''a.xz'', ''b.xz'']))) [0]"
    by (simp add: valid_picks_def files_train_def sample_size_def)
  have v: "valid_picks (length (files_val [''a.xz'', ''b.xz'']))
             (sample_size (length (files_val [''a.xz'', ''b.xz'']))) [0]"
    by (simp add: valid_picks_def files_val_def sample_size_def)
  from split_and_sample_subsets [OF l t v] show ?thesis
    by (simp add: files_train_def files_val_def)
qed

subsection \<open>The driver\<close>

text \<open>
  Claim C5. When the source directory does not exist, or holds no file whose name ends in
  \<^verbatim>\<open>.xz\<close>, \<^verbatim>\<open>main\<close> reports it and returns with every file as it was: neither output
  file nor the vocabulary file is written or truncated.
\<close>

theorem structural_error_no_mutation:
  assumes "source E = Missing \<or> xz_files_in_dir (source E) = Inr []"
  shows "main E fs
           = (Inr (if source E = Missing then DirectoryNotFound else NoXzFiles), fs)"
  using assms by (auto simp: main_def)

theorem structural_error_no_mutation_witness:
  "main (env0\<lparr>source := Missing\<rparr>) [''output_train.txt'' \<mapsto> [120], ''vocab.txt'' \<mapsto> [122, 10]]
     = (Inr DirectoryNotFound, [''output_train.txt'' \<mapsto> [120], ''vocab.txt'' \<mapsto> [122, 10]])
   \<and> main (env0\<lparr>source := Directory [(''notes.txt'', True), (''old.xz'', False)]\<rparr>)
        [''output_train.txt'' \<mapsto> [120], ''vocab.txt'' \<mapsto> [122, 10]]
     = (Inr NoXzFiles, [''output_train.txt'' \<mapsto> [120], ''vocab.txt'' \<mapsto> [122, 10]])"
proof -
  have a: "source (env0\<lparr>source := Missing\<rparr>) = Missing
           \<or> xz_files_in_dir (source (env0\<lparr>source := Missing\<rparr>)) = Inr []"
    by simp
  have b: "source (env0\<lparr>source := Directory [(''notes.txt'', True), (''old.xz'', False)]\<rparr>) = Missing
           \<or> xz_files_in_dir
                (source (env0\<lparr>source := Directory [(''notes.txt'', True), (''old.xz'', False)]\<rparr>))
              = Inr []"
    by (simp add: xz_files_in_dir_def endswith_def)
  from structural_error_no_mutation [OF a] structural_error_no_mutation [OF b]
  show ?thesis by simp
qed

lemma truthy_Some: "truthy (Some A) = (A \<noteq> {})"
  by (simp add: truthy_def)

lemma combine_Some:
  "truthy (py_or (Some A) (Some B)) = (A \<union> B \<noteq> {})"
  "A \<union> B \<noteq> {} \<Longrightarrow> the (combine_chars (Some A) (Some B)) = A \<union> B"
  by (auto simp: truthy_def py_or_def combine_chars_def)

lemma collected_eq:
  "collected E files =
     (\<Union>f\<in>set (train_successful E files). set (decoded (shards E) folder_path f))
     \<union> (\<Union>f\<in>set (val_successful E files). set (decoded (shards E) folder_path f))"
  by (simp add: collected_def)

lemma outputs_differ:
  "output_file_train \<noteq> output_file_val" "output_file_train \<noteq> vocab_file"
  "output_file_val \<noteq> vocab_file"
  by (simp_all add: output_file_train_def output_file_val_def vocab_file_def)

lemma main_effect:
  assumes wf: "well_formed E" and x: "xz_files_in_dir (source E) = Inr files"
    and n: "2 \<le> length files"
  shows "fst (main E fs) = Inr Complete"
    and "snd (main E fs) output_file_train
           = Some (concat (map (decoded (shards E) folder_path) (train_successful E files)))"
    and "snd (main E fs) output_file_val
           = Some (concat (map (decoded (shards E) folder_path) (val_successful E files)))"
    and "snd (main E fs) vocab_file
           = (if collected E files = {} then fs vocab_file
              else Some (vocab_lines (collected E files)))"
proof -
  define tr where "tr = train_sampled E files"
  define va where "va = val_sampled E files"
  define Rt where "Rt = run_train E"
  define Rv where "Rv = run_val E"
  define sh where "sh = shards E"
  from wf x n have df: "distinct files"
    and pt: "valid_picks (length (files_train files)) (sample_size (length (files_train files)))
               (picks_train E)"
    and pv: "valid_picks (length (files_val files)) (sample_size (length (files_val files)))
               (picks_val E)"
    and ut: "usable_run Rt (sample_size (length (files_train files)))"
    and uv: "usable_run Rv (sample_size (length (files_val files)))"
    by (simp_all add: well_formed_def Rt_def Rv_def)
  have nm: "source E \<noteq> Missing" using x by (auto simp: xz_files_in_dir_def)
  have ne: "files \<noteq> []" using n by auto
  have ss: "split_and_sample files (picks_train E) (picks_val E) = Inr (tr, va)"
    using split_and_sample_eq [OF n] by (simp add: tr_def va_def train_sampled_def val_sampled_def)
  have dt: "distinct tr"
    unfolding tr_def train_sampled_def
    by (rule sampled_distinct [OF _ pt]) (simp add: files_train_def df)
  have dv: "distinct va"
    unfolding va_def val_sampled_def
    by (rule sampled_distinct [OF _ pv]) (simp add: files_val_def df)
  have lt: "length tr = sample_size (length (files_train files))"
    using pt by (simp add: tr_def train_sampled_def valid_picks_def)
  have lv: "length va = sample_size (length (files_val files))"
    using pv by (simp add: va_def val_sampled_def valid_picks_def)
  have st: "valid_sched (length tr) (sched Rt)" using ut by (simp add: usable_run_def lt)
  have sv: "valid_sched (length va) (sched Rv)" using uv by (simp add: usable_run_def lv)
  have ot: "\<not> inside (temp_dir Rt) output_file_train" "\<not> inside (temp_dir Rt) output_file_val"
    "\<not> inside (temp_dir Rt) vocab_file"
    using ut by (simp_all add: usable_run_def)
  have ov: "\<not> inside (temp_dir Rv) output_file_train" "\<not> inside (temp_dir Rv) output_file_val"
    "\<not> inside (temp_dir Rv) vocab_file"
    using uv by (simp_all add: usable_run_def)
  define fs1 where "fs1 = fs(output_file_train \<mapsto> [], output_file_val \<mapsto> [])"
  define gt where "gt = successful sh Rt folder_path tr"
  define gv where "gv = successful sh Rv folder_path va"
  define tt where "tt = concat (map (decoded sh folder_path) gt)"
  define tv where "tv = concat (map (decoded sh folder_path) gv)"
  define A where "A = (\<Union>f\<in>set gt. set (decoded sh folder_path f))"
  define B where "B = (\<Union>f\<in>set gv. set (decoded sh folder_path f))"
  have gt: "train_successful E files = gt"
    by (simp add: train_successful_def gt_def sh_def Rt_def tr_def)
  have gv: "val_successful E files = gv"
    by (simp add: val_successful_def gv_def sh_def Rv_def va_def)
  define fs2 where "fs2 = rmtree (temp_dir Rt) (fs1(output_file_train \<mapsto> tt))"
  define fs3 where "fs3 = rmtree (temp_dir Rv) (fs2(output_file_val \<mapsto> tv))"
  have r1: "read_all fs1 output_file_train = []"
    by (simp add: fs1_def read_all_def outputs_differ)
  have p1: "process_files_in_parallel sh Rt tr folder_path output_file_train True fs1
              = ((Some A, length gt, length tr - length gt), fs2)"
    unfolding process_files_in_parallel_effect [OF dt st ot(1)] r1 fs2_def A_def tt_def gt_def
    by simp
  have r2: "read_all fs2 output_file_val = []"
    by (simp add: fs2_def read_all_def rmtree_outside [OF ot(2)] fs1_def outputs_differ
        outputs_differ(1) [symmetric])
  have p2: "process_files_in_parallel sh Rv va folder_path output_file_val True fs2
              = ((Some B, length gv, length va - length gv), fs3)"
    unfolding process_files_in_parallel_effect [OF dv sv ov(2)] r2 fs3_def B_def tv_def gv_def
    by simp
  have c: "collected E files = A \<union> B"
    by (simp add: collected_eq gt gv A_def B_def sh_def)
  have m: "main E fs = (Inr Complete,
             if A \<union> B \<noteq> {} then fs3(vocab_file \<mapsto> vocab_lines (A \<union> B)) else fs3)"
    using nm ne
    by (simp add: main_def x ss fs1_def [symmetric] sh_def [symmetric] Rt_def [symmetric]
        Rv_def [symmetric] p1 p2 combine_Some del: Un_empty)
  have f3t: "fs3 output_file_train = Some tt"
    by (simp add: fs3_def rmtree_outside [OF ov(1)] fs2_def rmtree_outside [OF ot(1)]
        outputs_differ)
  have f3v: "fs3 output_file_val = Some tv"
    by (simp add: fs3_def rmtree_outside [OF ov(2)])
  have f3c: "fs3 vocab_file = fs vocab_file"
    by (simp add: fs3_def rmtree_outside [OF ov(3)] fs2_def rmtree_outside [OF ot(3)] fs1_def
        outputs_differ outputs_differ [symmetric])
  show "fst (main E fs) = Inr Complete" by (simp add: m)
  show "snd (main E fs) output_file_train
           = Some (concat (map (decoded (shards E) folder_path) (train_successful E files)))"
    using f3t by (simp add: m outputs_differ tt_def gt sh_def)
  show "snd (main E fs) output_file_val
           = Some (concat (map (decoded (shards E) folder_path) (val_successful E files)))"
    using f3v by (simp add: m outputs_differ tv_def gv sh_def)
  show "snd (main E fs) vocab_file
           = (if collected E files = {} then fs vocab_file
              else Some (vocab_lines (collected E files)))"
    using f3c by (simp add: m c del: Un_empty)
qed

lemma xz_env0: "xz_files_in_dir (source env0) = Inr [''a.xz'', ''b.xz'']"
  by (simp add: env0_def xz_files_in_dir_def endswith_def)

lemma xz_env_failing: "xz_files_in_dir (source env_failing) = Inr [''c.xz'', ''d.xz'']"
  by (simp add: env_failing_def xz_files_in_dir_def endswith_def)

lemma parts_two:
  "files_train [a, b] = [a]" "files_val [a, b] = [b]"
  by (simp_all add: files_train_def files_val_def)

lemma usable_examples:
  "usable_run \<lparr>temp_dir = ''/tmp/t'', ids = i, scratch = s, sched = [0]\<rparr> (Suc 0)"
  "usable_run \<lparr>temp_dir = ''/tmp/u'', ids = i, scratch = s, sched = [0]\<rparr> (Suc 0)"
  by (simp_all add: usable_run_def valid_sched_def inside_def dir_prefix_def
      output_file_train_def output_file_val_def vocab_file_def)

lemma wf_env0: "well_formed env0"
  unfolding well_formed_def xz_env0
  by (simp add: parts_two sample_size_def valid_picks_def env0_def usable_examples)

lemma wf_env0_swapped: "well_formed (env0\<lparr>run_train := run_val env0, run_val := run_train env0\<rparr>)"
proof -
  have x: "xz_files_in_dir (source (env0\<lparr>run_train := run_val env0, run_val := run_train env0\<rparr>))
             = Inr [''a.xz'', ''b.xz'']"
    using xz_env0 by simp
  show ?thesis
    unfolding well_formed_def x
    by (simp add: parts_two sample_size_def valid_picks_def env0_def usable_examples)
qed

lemma wf_env_failing: "well_formed env_failing"
  unfolding well_formed_def xz_env_failing
  by (simp add: parts_two sample_size_def valid_picks_def env0_def env_failing_def usable_examples)

lemma sampled_env0:
  "train_sampled env0 [''a.xz'', ''b.xz''] = [''a.xz'']"
  "val_sampled env0 [''a.xz'', ''b.xz''] = [''b.xz'']"
  by (simp_all add: train_sampled_def val_sampled_def parts_two env0_def)

lemma sampled_env_failing:
  "train_sampled env_failing [''c.xz'', ''d.xz''] = [''c.xz'']"
  "val_sampled env_failing [''c.xz'', ''d.xz''] = [''d.xz'']"
  by (simp_all add: train_sampled_def val_sampled_def parts_two env0_def env_failing_def)

lemma sh0_d: "\<not> intact sh0 ''openwebtext'' ''d.xz''"
  by (simp add: intact_def join_def sh0_def)

lemma shards_examples: "shards env0 = sh0" "shards env_failing = sh0"
  by (simp_all add: env0_def env_failing_def)

lemma successful_one:
  "successful sh R d [a] = (if succeeds sh R d [a] 0 then [a] else [])"
  by (simp add: successful_def)

lemma scratch_examples:
  "scratch (run_train env0) i = Room 4096" "scratch (run_val env0) i = Room 4096"
  "scratch (run_train env_failing) i = Room 4096" "scratch (run_val env_failing) i = Room 4096"
  by (simp_all add: env0_def env_failing_def)

lemma successful_env0:
  "train_successful env0 [''a.xz'', ''b.xz''] = [''a.xz'']"
  "val_successful env0 [''a.xz'', ''b.xz''] = [''b.xz'']"
  by (simp_all add: train_successful_def val_successful_def sampled_env0 shards_examples
      successful_one succeeds_def completes_def takes_def scratch_examples folder_path_def
      sh0_decoded)

lemma successful_env_failing:
  "train_successful env_failing [''c.xz'', ''d.xz''] = []"
  "val_successful env_failing [''c.xz'', ''d.xz''] = []"
  by (simp_all add: train_successful_def val_successful_def sampled_env_failing shards_examples
      successful_one succeeds_def completes_def folder_path_def sh0_decoded sh0_d)

lemma collected_env0: "collected env0 [''a.xz'', ''b.xz''] = {104, 105, 121, 111}"
  by (auto simp: collected_def successful_env0 shards_examples folder_path_def sh0_decoded)

lemma collected_env_failing: "collected env_failing [''c.xz'', ''d.xz''] = {}"
  by (simp add: collected_def successful_env_failing)

lemma finite_collected: "finite (collected E files)"
  by (simp add: collected_def)

text \<open>
  Claim C2, as stated, fails: the vocabulary file is written only when some character was
  collected. When neither sampled shard decodes, \<^verbatim>\<open>main\<close> completes and a vocabulary
  file of an earlier execution is still there, holding a character of no decoded shard;
  and when there was none, none is written.
\<close>

theorem stale_vocabulary_kept:
  "fst (main env_failing [''vocab.txt'' \<mapsto> [122, 10]]) = Inr Complete
   \<and> snd (main env_failing [''vocab.txt'' \<mapsto> [122, 10]]) ''vocab.txt'' = Some [122, 10]
   \<and> snd (main env_failing Map.empty) ''vocab.txt'' = None
   \<and> \<not> intact sh0 ''openwebtext'' ''c.xz'' \<and> \<not> intact sh0 ''openwebtext'' ''d.xz''"
proof -
  have l: "2 \<le> length [''c.xz'', ''d.xz'']" by simp
  note me = main_effect [OF wf_env_failing xz_env_failing l]
  show ?thesis
    using me(1) [of "[''vocab.txt'' \<mapsto> [122, 10]]"] me(4) [of "[''vocab.txt'' \<mapsto> [122, 10]]"]
      me(4) [of Map.empty]
    by (simp add: collected_env_failing vocab_file_def sh0_decoded sh0_d)
qed

text \<open>
  Claim C2, amended. When the two runs collect at least one character, the vocabulary file
  at the end holds the characters of the sampled shards that were decoded with success, of
  both runs, each once, in the order of the code points, one to a line; a shard whose
  processing failed contributes nothing. When they collect none, the vocabulary file is
  not written and is left as it was.
\<close>

theorem vocabulary_of_decoded_shards:
  assumes "well_formed E" and "xz_files_in_dir (source E) = Inr files" and "2 \<le> length files"
  shows "snd (main E fs) vocab_file
           = (if collected E files = {} then fs vocab_file
              else Some (concat (map (\<lambda>c. [c, 10]) (sorted_list_of_set (collected E files)))))
       \<and> sorted (sorted_list_of_set (collected E files))
       \<and> distinct (sorted_list_of_set (collected E files))
       \<and> set (sorted_list_of_set (collected E files)) = collected E files"
  using main_effect(4) [OF assms] finite_collected [of E files]
  by (simp add: vocab_lines_def)

theorem vocabulary_of_decoded_shards_witness:
  "snd (main env0 [''vocab.txt'' \<mapsto> [122, 10]]) ''vocab.txt''
     = Some [104, 10, 105, 10, 111, 10, 121, 10]"
proof -
  have l: "2 \<le> length [''a.xz'', ''b.xz'']" by simp
  have "sorted_list_of_set (set [104, 105, 111, 121 :: nat]) = [104, 105, 111, 121]"
    by (rule sorted_list_of_set.idem_if_sorted_distinct) simp_all
  moreover have "set [104, 105, 111, 121 :: nat] = {104, 105, 121, 111}" by auto
  ultimately have s: "sorted_list_of_set {104, 105, 121, 111 :: nat} = [104, 105, 111, 121]"
    by simp
  from vocabulary_of_decoded_shards [OF wf_env0 xz_env0 l, of "[''vocab.txt'' \<mapsto> [122, 10]]"]
  show ?thesis
    by (simp add: collected_env0 vocab_file_def s)
qed

lemma successful_same_scratch:
  assumes "scratch R' = scratch R"
  shows "successful sh R' d files = successful sh R d files"
proof -
  have "succeeds sh R' d files = succeeds sh R d files"
    using assms by (simp add: fun_eq_iff succeeds_def)
  then show ?thesis by (simp add: successful_def)
qed

lemma split_and_sample_one:
  "length files = 1 \<Longrightarrow> split_and_sample files pt pv = Inl ValueError"
  by (simp add: split_and_sample_def sample_def sample_size_def Let_def)

lemma main_early:
  assumes "\<And>files. xz_files_in_dir (source E) = Inr files \<Longrightarrow> length files < 2"
  shows "snd (main E fs) = fs"
proof (cases "xz_files_in_dir (source E)")
  case (Inl e)
  then show ?thesis by (simp add: main_def)
next
  case (Inr files)
  from assms [OF Inr] have "files = [] \<or> length files = 1" by (cases files) auto
  then show ?thesis
    using split_and_sample_one [of files] by (auto simp: main_def Inr)
qed

text \<open>
  Claim C8. An execution of \<^verbatim>\<open>main\<close> on the files that an earlier execution left, with
  the same source directory, shards and draws of the sampler (the schedules, process ids
  and temporary directories may differ), leaves in each output file the decoded texts of
  the sampled shards that succeeded in it, once and not after what the earlier execution
  wrote; when the scratch files behave as in the earlier execution, that is the content
  that the earlier execution gave the file.
\<close>

theorem rerun_overwrites:
  assumes "well_formed E" and "well_formed E'"
    and "source E' = source E" and "shards E' = shards E"
    and "picks_train E' = picks_train E" and "picks_val E' = picks_val E"
  shows "(scratch (run_train E') = scratch (run_train E) \<longrightarrow>
            snd (main E' (snd (main E fs))) output_file_train = snd (main E fs) output_file_train)
       \<and> (scratch (run_val E') = scratch (run_val E) \<longrightarrow>
            snd (main E' (snd (main E fs))) output_file_val = snd (main E fs) output_file_val)
       \<and> (\<forall>files. xz_files_in_dir (source E) = Inr files \<and> 2 \<le> length files \<longrightarrow>
            snd (main E' (snd (main E fs))) output_file_train
              = Some (concat (map (decoded (shards E) folder_path) (train_successful E' files)))
            \<and> snd (main E' (snd (main E fs))) output_file_val
              = Some (concat (map (decoded (shards E) folder_path) (val_successful E' files))))"
proof (cases "\<exists>files. xz_files_in_dir (source E) = Inr files \<and> 2 \<le> length files")
  case True
  then obtain files where x: "xz_files_in_dir (source E) = Inr files" and n: "2 \<le> length files"
    by blast
  have x': "xz_files_in_dir (source E') = Inr files" using x assms(3) by simp
  have t: "train_successful E' files = train_successful E files"
    if "scratch (run_train E') = scratch (run_train E)"
    using assms(4,5) successful_same_scratch [OF that]
    by (simp add: train_successful_def train_sampled_def)
  have v: "val_successful E' files = val_successful E files"
    if "scratch (run_val E') = scratch (run_val E)"
    using assms(4,6) successful_same_scratch [OF that]
    by (simp add: val_successful_def val_sampled_def)
  note a = main_effect [OF assms(1) x n, of fs]
  note b = main_effect [OF assms(2) x' n, of "snd (main E fs)", unfolded assms(4)]
  show ?thesis using a(2,3) b(2,3) x t v by auto
next
  case False
  then have e: "\<And>files. xz_files_in_dir (source E) = Inr files \<Longrightarrow> length files < 2"
    by (meson not_le)
  then have e': "\<And>files. xz_files_in_dir (source E') = Inr files \<Longrightarrow> length files < 2"
    using assms(3) by simp
  show ?thesis using False by (auto simp: main_early [OF e] main_early [OF e'])
qed

theorem rerun_overwrites_witness:
  "snd (main (env0\<lparr>run_train := run_val env0, run_val := run_train env0\<rparr>)
          (snd (main env0 [''output_train.txt'' \<mapsto> [120], ''output_val.txt'' \<mapsto> [120]])))
       ''output_train.txt'' = Some [104, 105]
   \<and> snd (main (env0\<lparr>run_train := run_val env0, run_val := run_train env0\<rparr>)
          (snd (main env0 [''output_train.txt'' \<mapsto> [120], ''output_val.txt'' \<mapsto> [120]])))
       ''output_val.txt'' = Some [121, 111]
   \<and> snd (main env0 [''output_train.txt'' \<mapsto> [120], ''output_val.txt'' \<mapsto> [120]])
       ''output_train.txt'' = Some [104, 105]
   \<and> snd (main env0 [''output_train.txt'' \<mapsto> [120], ''output_val.txt'' \<mapsto> [120]])
       ''output_val.txt'' = Some [121, 111]"
proof -
  let ?E' = "env0\<lparr>run_train := run_val env0, run_val := run_train env0\<rparr>"
  let ?fs = "[''output_train.txt'' \<mapsto> [120], ''output_val.txt'' \<mapsto> [120::nat]]"
  have l: "2 \<le> length [''a.xz'', ''b.xz'']" by simp
  have s: "source ?E' = source env0" and h: "shards ?E' = shards env0"
    and t: "picks_train ?E' = picks_train env0" and v: "picks_val ?E' = picks_val env0"
    by simp_all
  have st: "scratch (run_train ?E') = scratch (run_train env0)"
    and sv: "scratch (run_val ?E') = scratch (run_val env0)"
    by (simp_all add: env0_def)
  have g: "train_successful ?E' [''a.xz'', ''b.xz''] = [''a.xz'']"
    "val_successful ?E' [''a.xz'', ''b.xz''] = [''b.xz'']"
    using successful_env0 successful_same_scratch [OF st] successful_same_scratch [OF sv]
    by (simp_all add: train_successful_def val_successful_def train_sampled_def val_sampled_def)
  note r = rerun_overwrites [OF wf_env0 wf_env0_swapped s h t v, of ?fs]
  note c1 = r [THEN conjunct1, rule_format, OF st]
  note c2 = r [THEN conjunct2, THEN conjunct1, rule_format, OF sv]
  note c3 = r [THEN conjunct2, THEN conjunct2, rule_format, OF conjI [OF xz_env0 l]]
  from c1 c2 c3 show ?thesis
    by (simp add: g shards_examples folder_path_def sh0_decoded output_file_train_def
        output_file_val_def)
qed
end
